theory Spec2Isabelle
  imports Main "HOL-Library.Word" "HOL-Library.AList"
begin

unbundle bit_operations_syntax

section \<open>Strings and bytes\<close>

text \<open>
  A JavaScript string is a sequence of 16-bit code units. Literals of the source are
  written with \<open>js\<close>, which reads an ASCII literal as code units.
\<close>

type_synonym code_unit = "16 word"
type_synonym js_string = "code_unit list"
type_synonym byte = "8 word"

definition js :: "string \<Rightarrow> js_string" where
  "js s = map of_char s"

section \<open>Code generator\<close>

text \<open>
  \<^verbatim>\<open>crypto.randomBytes(4).toString("base64url").slice(0, 6)\<close>.
  The four random bytes are an input of the model. \<open>base64url\<close> is the encoding of
  a buffer of any length with the URL-safe alphabet and without padding: three bytes
  give four symbols, a rest of one byte gives two and a rest of two bytes gives three.
\<close>

definition b64_alphabet :: js_string where
  "b64_alphabet = js ''ABCDEFGHIJKLMNOPQRSTUVWXYZabcdefghijklmnopqrstuvwxyz0123456789-_''"

text \<open>The symbol of a sextet. The encoder only asks for values below 64, see \<open>sextet1\<close> to \<open>sextet5\<close>.\<close>

definition b64_symbol :: "byte \<Rightarrow> code_unit" where
  "b64_symbol v = b64_alphabet ! unat v"

fun base64url :: "byte list \<Rightarrow> js_string" where
  "base64url [] = []"
| "base64url [a] = [b64_symbol (drop_bit 2 a), b64_symbol (push_bit 4 (a AND 3))]"
| "base64url [a, b] =
     [b64_symbol (drop_bit 2 a),
      b64_symbol (push_bit 4 (a AND 3) OR drop_bit 4 b),
      b64_symbol (push_bit 2 (b AND 15))]"
| "base64url (a # b # c # rest) =
     [b64_symbol (drop_bit 2 a),
      b64_symbol (push_bit 4 (a AND 3) OR drop_bit 4 b),
      b64_symbol (push_bit 2 (b AND 15) OR drop_bit 6 c),
      b64_symbol (c AND 63)] @ base64url rest"

type_synonym bytes4 = "byte \<times> byte \<times> byte \<times> byte"

fun generateCode :: "bytes4 \<Rightarrow> js_string" where
  "generateCode (a, b, c, d) = take 6 (base64url [a, b, c, d])"

text \<open>The symbols the specification allows in a code: A-Z, a-z, 0-9, \<open>-\<close> and \<open>_\<close>.\<close>

definition url_safe :: "code_unit \<Rightarrow> bool" where
  "url_safe c = ((0x41 \<le> c \<and> c \<le> 0x5A) \<or> (0x61 \<le> c \<and> c \<le> 0x7A)
                 \<or> (0x30 \<le> c \<and> c \<le> 0x39) \<or> c = 0x2D \<or> c = 0x5F)"

section \<open>URL normalizer\<close>

text \<open>
  \<^verbatim>\<open>new URL(s)\<close> is the parser of the platform, not code of the repository.
  The model takes it as a parameter: a function that fails (\<open>None\<close>, the exception) or
  gives the two properties the code reads, \<open>protocol\<close> and \<open>href\<close>.
\<close>

record URL =
  protocol :: js_string
  href :: js_string

definition ascii_lower :: "code_unit \<Rightarrow> code_unit" where
  "ascii_lower c = (if 0x41 \<le> c \<and> c \<le> 0x5A then c + 0x20 else c)"

text \<open>
  The test \<^verbatim>\<open>/^https?:\/\//i.test(url)\<close>. Without the \<open>u\<close> flag, ignoring case
  never identifies a code unit above 127 with an ASCII letter, so the test compares the
  first seven or eight code units, with A-Z lowered, against the two literals.
\<close>

definition has_http_prefix :: "js_string \<Rightarrow> bool" where
  "has_http_prefix url =
     (map ascii_lower (take 7 url) = js ''http://'' \<or> map ascii_lower (take 8 url) = js ''https://'')"

definition normalizeUrl :: "(js_string \<Rightarrow> URL option) \<Rightarrow> js_string \<Rightarrow> js_string option" where
  "normalizeUrl new_URL url =
     (let withProtocol = (if has_http_prefix url then url else js ''https://'' @ url) in
      case new_URL withProtocol of
        None \<Rightarrow> None
      | Some parsed \<Rightarrow>
          if protocol parsed \<noteq> js ''http:'' \<and> protocol parsed \<noteq> js ''https:'' then None
          else Some (href parsed))"

text \<open>
  \<^verbatim>\<open>String.prototype.trim\<close>: removes white space and line terminators of ECMAScript
  from both ends.
\<close>

definition is_white_space :: "code_unit \<Rightarrow> bool" where
  "is_white_space c =
     (c = 0x9 \<or> c = 0xA \<or> c = 0xB \<or> c = 0xC \<or> c = 0xD \<or> c = 0x20 \<or> c = 0xA0 \<or> c = 0x1680
      \<or> (0x2000 \<le> c \<and> c \<le> 0x200A) \<or> c = 0x2028 \<or> c = 0x2029 \<or> c = 0x202F \<or> c = 0x205F
      \<or> c = 0x3000 \<or> c = 0xFEFF)"

definition trim :: "js_string \<Rightarrow> js_string" where
  "trim s = rev (dropWhile is_white_space (rev (dropWhile is_white_space s)))"

section \<open>Persistent store\<close>

text \<open>
  The table \<open>urls\<close> of the SQLite database, as the list of its rows in the order of a
  table scan (the order of insertion). The prepared statements are functions on it.
  Text is compared as strings and \<open>visits\<close> is an integer without bound.
\<close>

record UrlRow =
  code :: js_string
  original_url :: js_string
  created_at :: js_string
  visits :: int

datatype sqlite_error = SQLITE_CONSTRAINT_PRIMARYKEY

definition findByUrl :: "UrlRow list \<Rightarrow> js_string \<Rightarrow> UrlRow option" where
  "findByUrl t u = find (\<lambda>r. original_url r = u) t"

definition findByCode :: "UrlRow list \<Rightarrow> js_string \<Rightarrow> UrlRow option" where
  "findByCode t c = find (\<lambda>r. code r = c) t"

text \<open>\<open>code\<close> is the primary key: an insert of a code that a row has already fails.\<close>

definition insert_row :: "UrlRow list \<Rightarrow> js_string \<Rightarrow> js_string \<Rightarrow> js_string \<Rightarrow> sqlite_error + UrlRow list" where
  "insert_row t c u ts =
     (if list_ex (\<lambda>r. code r = c) t then Inl SQLITE_CONSTRAINT_PRIMARYKEY
      else Inr (t @ [\<lparr>code = c, original_url = u, created_at = ts, visits = 0\<rparr>]))"

definition listAll :: "UrlRow list \<Rightarrow> UrlRow list" where
  "listAll t = t"

text \<open>The delete gives the number of rows it removed (\<open>changes\<close>) and the new table.\<close>

definition deleteByCode :: "UrlRow list \<Rightarrow> js_string \<Rightarrow> nat \<times> UrlRow list" where
  "deleteByCode t c = (length (filter (\<lambda>r. code r = c) t), filter (\<lambda>r. code r \<noteq> c) t)"

definition incrementVisits :: "UrlRow list \<Rightarrow> js_string \<Rightarrow> UrlRow list" where
  "incrementVisits t c = map (\<lambda>r. if code r = c then r\<lparr>visits := visits r + 1\<rparr> else r) t"

section \<open>Cache\<close>

text \<open>
  The state of the service: the table, the keys of the Redis server with their values,
  and the flag \<open>redisConnected\<close>. A command sent to Redis completes or throws; which
  one is an input (\<open>ok\<close>), and a command that throws leaves the keys as they were. The
  expiry of a key (\<open>EX 3600\<close>) is an event of the environment, see \<open>step\<close>.
\<close>

record state =
  urls :: "UrlRow list"
  redis :: "(js_string \<times> js_string) list"
  redisConnected :: bool

definition cacheGet :: "bool \<Rightarrow> state \<Rightarrow> js_string \<Rightarrow> js_string option" where
  "cacheGet ok s c =
     (if \<not> redisConnected s then None
      else if ok then map_of (redis s) (js ''url:'' @ c) else None)"

definition cacheSet :: "bool \<Rightarrow> state \<Rightarrow> js_string \<Rightarrow> js_string \<Rightarrow> state" where
  "cacheSet ok s c url =
     (if \<not> redisConnected s then s
      else if ok then s\<lparr>redis := AList.update (js ''url:'' @ c) url (redis s)\<rparr> else s)"

definition cacheDel :: "bool \<Rightarrow> state \<Rightarrow> js_string \<Rightarrow> state" where
  "cacheDel ok s c =
     (if \<not> redisConnected s then s
      else if ok then s\<lparr>redis := AList.delete (js ''url:'' @ c) (redis s)\<rparr> else s)"

section \<open>Handlers\<close>

text \<open>
  A response is what the handler sends: \<open>Json status body\<close> for \<^verbatim>\<open>res.status(..).json(..)\<close>
  (status 200 where the code sets none), \<open>Redirect u\<close> for \<^verbatim>\<open>res.redirect(u)\<close>, and
  \<open>Throws e\<close> where a statement of the store throws and the handler does not catch it.
\<close>

datatype stats_entry = StatsEntry js_string js_string js_string js_string int

datatype body =
    Error js_string
  | Shortened js_string js_string js_string
  | Stats stats_entry
  | StatsList "stats_entry list"
  | Message js_string

datatype response = Json nat body | Redirect js_string | Throws sqlite_error

text \<open>
  The configuration: the platform's URL parser and \<open>BASE_URL\<close>. The inputs of one
  request that come from the environment: the successive results of
  \<^verbatim>\<open>crypto.randomBytes(4)\<close>, the result of \<^verbatim>\<open>new Date().toISOString()\<close>, and whether
  the Redis commands of the request complete.
\<close>

record config =
  new_URL :: "js_string \<Rightarrow> URL option"
  BASE_URL :: js_string

record env =
  random_bytes :: "bytes4 list"
  date_now :: js_string
  get_ok :: bool
  set_ok :: bool
  del_ok :: bool

text \<open>The field \<open>url\<close> of the request body: a string, or anything else (also absent).\<close>

datatype body_url = Str js_string | NotAString

text \<open>
  The loop that draws codes until one is not in the table. It consumes the random draws
  of the environment; \<open>None\<close> when every draw given collides, so the loop has not ended
  within them.
\<close>

fun fresh_code :: "UrlRow list \<Rightarrow> bytes4 list \<Rightarrow> js_string option" where
  "fresh_code t [] = None"
| "fresh_code t (r # rs) =
     (if findByCode t (generateCode r) \<noteq> None then fresh_code t rs else Some (generateCode r))"

definition missing_url :: response where
  "missing_url = Json 400 (Error (js ''Missing 'url' in request body''))"

definition invalid_url :: response where
  "invalid_url = Json 400 (Error (js ''Invalid URL''))"

definition not_found :: response where
  "not_found = Json 404 (Error (js ''Short URL not found''))"

definition short_url :: "config \<Rightarrow> js_string \<Rightarrow> js_string" where
  "short_url cfg c = BASE_URL cfg @ js ''/'' @ c"

text \<open>\<^verbatim>\<open>POST /shorten\<close>. \<open>None\<close> when the loop for a fresh code does not end.\<close>

definition shorten :: "config \<Rightarrow> env \<Rightarrow> state \<Rightarrow> body_url \<Rightarrow> (response \<times> state) option" where
  "shorten cfg e s b =
     (case b of
        NotAString \<Rightarrow> Some (missing_url, s)
      | Str url \<Rightarrow>
          if url = [] then Some (missing_url, s)
          else
            (case normalizeUrl (new_URL cfg) (trim url) of
               None \<Rightarrow> Some (invalid_url, s)
             | Some normalizedUrl \<Rightarrow>
                 if normalizedUrl = [] then Some (invalid_url, s)
                 else
                   (case findByUrl (urls s) normalizedUrl of
                      Some existing \<Rightarrow>
                        Some (Json 200 (Shortened (short_url cfg (code existing)) (code existing) normalizedUrl), s)
                    | None \<Rightarrow>
                        (case fresh_code (urls s) (random_bytes e) of
                           None \<Rightarrow> None
                         | Some c \<Rightarrow>
                             (case insert_row (urls s) c normalizedUrl (date_now e) of
                                Inl err \<Rightarrow> Some (Throws err, s)
                              | Inr t \<Rightarrow>
                                  Some (Json 201 (Shortened (short_url cfg c) c normalizedUrl),
                                        cacheSet (set_ok e) (s\<lparr>urls := t\<rparr>) c normalizedUrl))))))"

definition stats_of :: "config \<Rightarrow> UrlRow \<Rightarrow> stats_entry" where
  "stats_of cfg row =
     StatsEntry (short_url cfg (code row)) (code row) (original_url row) (created_at row) (visits row)"

text \<open>\<^verbatim>\<open>GET /stats\<close> and \<^verbatim>\<open>GET /stats/:code\<close>.\<close>

definition stats_all :: "config \<Rightarrow> state \<Rightarrow> response \<times> state" where
  "stats_all cfg s = (Json 200 (StatsList (map (stats_of cfg) (listAll (urls s)))), s)"

definition stats_one :: "config \<Rightarrow> state \<Rightarrow> js_string \<Rightarrow> response \<times> state" where
  "stats_one cfg s c =
     (case findByCode (urls s) c of
        None \<Rightarrow> (not_found, s)
      | Some row \<Rightarrow> (Json 200 (Stats (stats_of cfg row)), s))"

text \<open>\<^verbatim>\<open>DELETE /stats/:code\<close>.\<close>

definition remove :: "env \<Rightarrow> state \<Rightarrow> js_string \<Rightarrow> response \<times> state" where
  "remove e s c =
     (case deleteByCode (urls s) c of
        (changes, t) \<Rightarrow>
          if changes = 0 then (not_found, s\<lparr>urls := t\<rparr>)
          else (Json 200 (Message (js ''Deleted'')), cacheDel (del_ok e) (s\<lparr>urls := t\<rparr>) c))"

text \<open>\<^verbatim>\<open>GET /:code\<close>. An empty string from the cache is falsy and counts as a miss.\<close>

definition resolve :: "env \<Rightarrow> state \<Rightarrow> js_string \<Rightarrow> response \<times> state" where
  "resolve e s c =
     (let cachedUrl = cacheGet (get_ok e) s c in
      if cachedUrl \<noteq> None \<and> cachedUrl \<noteq> Some [] then
        (Redirect (the cachedUrl), s\<lparr>urls := incrementVisits (urls s) c\<rparr>)
      else
        (case findByCode (urls s) c of
           None \<Rightarrow> (not_found, s)
         | Some row \<Rightarrow>
             (let s1 = cacheSet (set_ok e) s c (original_url row) in
              (Redirect (original_url row), s1\<lparr>urls := incrementVisits (urls s1) c\<rparr>))))"

section \<open>Runs of the service\<close>

text \<open>
  The events of a run: the five requests, each handled as one step, the \<open>ready\<close> and
  \<open>error\<close> events of the Redis client, and the expiry of a key in Redis. The handlers
  run on one thread and the statements on the store are synchronous, so requests can only
  interleave where a handler awaits Redis; the model does not interleave them.
\<close>

datatype event =
    Shorten env body_url
  | Resolve env js_string
  | Remove env js_string
  | ListStats
  | GetStats js_string
  | RedisReady
  | RedisError
  | RedisExpired js_string

definition respond :: "config \<Rightarrow> state \<Rightarrow> event \<Rightarrow> (response \<times> state) option" where
  "respond cfg s ev =
     (case ev of
        Shorten e b \<Rightarrow> shorten cfg e s b
      | Resolve e c \<Rightarrow> Some (resolve e s c)
      | Remove e c \<Rightarrow> Some (remove e s c)
      | ListStats \<Rightarrow> Some (stats_all cfg s)
      | GetStats c \<Rightarrow> Some (stats_one cfg s c)
      | _ \<Rightarrow> None)"

definition step :: "config \<Rightarrow> state \<Rightarrow> event \<Rightarrow> state option" where
  "step cfg s ev =
     (case ev of
        RedisReady \<Rightarrow> Some (s\<lparr>redisConnected := True\<rparr>)
      | RedisError \<Rightarrow> Some (if redisConnected s then s\<lparr>redisConnected := False\<rparr> else s)
      | RedisExpired k \<Rightarrow> Some (s\<lparr>redis := AList.delete k (redis s)\<rparr>)
      | _ \<Rightarrow> map_option snd (respond cfg s ev))"

fun run :: "config \<Rightarrow> state \<Rightarrow> event list \<Rightarrow> state option" where
  "run cfg s [] = Some s"
| "run cfg s (ev # evs) = (case step cfg s ev of None \<Rightarrow> None | Some s' \<Rightarrow> run cfg s' evs)"

text \<open>The service starts with an empty table, no key in Redis and no connection.\<close>

definition init :: state where
  "init = \<lparr>urls = [], redis = [], redisConnected = False\<rparr>"

section \<open>The URL parser of the platform, in part\<close>

text \<open>
  Modelled from the spec: \<^verbatim>\<open>new URL\<close>, the URL parser of the platform, which the
  repository calls and does not contain. The specification has the input parsed as an
  absolute URL \<open>per standard URL syntax rules\<close> and the canonical form returned; the
  definitions below follow the basic URL parser and the serializer of the URL Standard,
  without a base URL, on the inputs that \<open>basic_parse\<close> covers: ASCII input with scheme
  \<open>http\<close> or \<open>https\<close>, no credentials, and a host of letters, digits, \<open>-\<close>, \<open>_\<close> and
  single dots that neither ends in a number nor holds a Punycode label. There the result
  is \<open>Parsed\<close> or \<open>Failure\<close> (the parser throws); on every other input the result is
  \<open>Unmodelled\<close> and \<open>URL_parser\<close> leaves the answer to its parameter. For concrete
  inputs the parameter \<open>new_URL\<close> of \<open>normalizeUrl\<close> is given by \<open>URL_parser\<close>.
\<close>

datatype parse_result = Parsed URL | Failure | Unmodelled

definition strip_c0_space :: "js_string \<Rightarrow> js_string" where
  "strip_c0_space s = rev (dropWhile (\<lambda>c. c \<le> 0x20) (rev (dropWhile (\<lambda>c. c \<le> 0x20) s)))"

definition remove_tab_newline :: "js_string \<Rightarrow> js_string" where
  "remove_tab_newline s = filter (\<lambda>c. c \<noteq> 0x9 \<and> c \<noteq> 0xA \<and> c \<noteq> 0xD) s"

text \<open>
  Percent-encoding of the code units in a set. The model encodes ASCII only, where the
  UTF-8 encoding of a code unit is the byte of the same value.
\<close>

definition hex_digits :: js_string where
  "hex_digits = js ''0123456789ABCDEF''"

definition percent_encode_byte :: "code_unit \<Rightarrow> js_string" where
  "percent_encode_byte c = [0x25, hex_digits ! (unat c div 16 mod 16), hex_digits ! (unat c mod 16)]"

definition percent_encode :: "(code_unit \<Rightarrow> bool) \<Rightarrow> js_string \<Rightarrow> js_string" where
  "percent_encode in_set s = concat (map (\<lambda>c. if in_set c then percent_encode_byte c else [c]) s)"

definition c0_control_set :: "code_unit \<Rightarrow> bool" where
  "c0_control_set c = (c < 0x20 \<or> 0x7E < c)"

definition fragment_set :: "code_unit \<Rightarrow> bool" where
  "fragment_set c = (c0_control_set c \<or> c = 0x20 \<or> c = 0x22 \<or> c = 0x3C \<or> c = 0x3E \<or> c = 0x60)"

definition query_set :: "code_unit \<Rightarrow> bool" where
  "query_set c = (c0_control_set c \<or> c = 0x20 \<or> c = 0x22 \<or> c = 0x23 \<or> c = 0x3C \<or> c = 0x3E)"

definition special_query_set :: "code_unit \<Rightarrow> bool" where
  "special_query_set c = (query_set c \<or> c = 0x27)"

definition path_set :: "code_unit \<Rightarrow> bool" where
  "path_set c = (query_set c \<or> c = 0x3F \<or> c = 0x60 \<or> c = 0x7B \<or> c = 0x7D)"

definition is_slash :: "code_unit \<Rightarrow> bool" where
  "is_slash c = (c = 0x2F \<or> c = 0x5C)"

definition ends_authority :: "code_unit \<Rightarrow> bool" where
  "ends_authority c = (is_slash c \<or> c = 0x3F \<or> c = 0x23)"

definition is_digit :: "code_unit \<Rightarrow> bool" where
  "is_digit c = (0x30 \<le> c \<and> c \<le> 0x39)"

definition is_hex :: "code_unit \<Rightarrow> bool" where
  "is_hex c = (is_digit c \<or> (0x61 \<le> c \<and> c \<le> 0x66))"

definition plain_host_unit :: "code_unit \<Rightarrow> bool" where
  "plain_host_unit c = ((0x61 \<le> c \<and> c \<le> 0x7A) \<or> is_digit c \<or> c = 0x2D \<or> c = 0x2E \<or> c = 0x5F)"

text \<open>
  The forbidden domain code points among ASCII, but for \<open>%\<close>: a host with \<open>%\<close> is
  percent-decoded first, which the model does not cover.
\<close>

definition forbidden_domain_unit :: "code_unit \<Rightarrow> bool" where
  "forbidden_domain_unit c =
     (c \<le> 0x20 \<or> c = 0x23 \<or> c = 0x2F \<or> c = 0x3A \<or> c = 0x3C \<or> c = 0x3E \<or> c = 0x3F
      \<or> c = 0x40 \<or> c = 0x5B \<or> c = 0x5C \<or> c = 0x5D \<or> c = 0x5E \<or> c = 0x7C \<or> c = 0x7F)"

fun has_infix :: "js_string \<Rightarrow> js_string \<Rightarrow> bool" where
  "has_infix p [] = (p = [])"
| "has_infix p (c # cs) = (take (length p) (c # cs) = p \<or> has_infix p cs)"

definition last_label :: "js_string \<Rightarrow> js_string" where
  "last_label h =
     (let h' = (if h \<noteq> [] \<and> last h = 0x2E then butlast h else h)
      in rev (takeWhile (\<lambda>c. c \<noteq> 0x2E) (rev h')))"

definition ends_in_number :: "js_string \<Rightarrow> bool" where
  "ends_in_number h =
     (let l = last_label h in
      l \<noteq> [] \<and> (list_all is_digit l \<or> (take 2 l = js ''0x'' \<and> list_all is_hex (drop 2 l))))"

text \<open>A host (lowered) that the model covers.\<close>

definition modelled_host :: "js_string \<Rightarrow> bool" where
  "modelled_host h =
     (list_all (\<lambda>c. plain_host_unit c \<or> forbidden_domain_unit c) h
      \<and> \<not> has_infix (js ''xn--'') h \<and> \<not> has_infix (js ''..'') h \<and> take 1 h \<noteq> js ''.''
      \<and> \<not> ends_in_number h)"

definition port_number :: "js_string \<Rightarrow> nat" where
  "port_number ds = foldl (\<lambda>n d. 10 * n + unat (d - 0x30)) 0 ds"

fun decimal :: "nat \<Rightarrow> js_string" where
  "decimal n = (if n < 10 then [0x30 + of_nat n] else decimal (n div 10) @ [0x30 + of_nat (n mod 10)])"

declare decimal.simps [simp del]

fun split_on :: "('a \<Rightarrow> bool) \<Rightarrow> 'a list \<Rightarrow> 'a list list" where
  "split_on P [] = [[]]"
| "split_on P (x # xs) =
     (if P x then [] # split_on P xs
      else (case split_on P xs of [] \<Rightarrow> [[x]] | y # ys \<Rightarrow> (x # y) # ys))"

definition single_dot :: "js_string \<Rightarrow> bool" where
  "single_dot seg = (map ascii_lower seg \<in> {js ''.'', js ''%2e''})"

definition double_dot :: "js_string \<Rightarrow> bool" where
  "double_dot seg = (map ascii_lower seg \<in> {js ''..'', js ''.%2e'', js ''%2e.'', js ''%2e%2e''})"

text \<open>
  The path state, segment by segment: \<open>path\<close> is the path so far. The last segment is the
  one that the end of the input, \<open>?\<close> or \<open>#\<close> ends; the others end with a slash.
\<close>

fun path_state :: "js_string list \<Rightarrow> js_string list \<Rightarrow> js_string list" where
  "path_state path [] = path"
| "path_state path [seg] =
     (if double_dot seg then butlast path @ [[]]
      else if single_dot seg then path @ [[]]
      else path @ [seg])"
| "path_state path (seg # rest) =
     (if double_dot seg then path_state (butlast path) rest
      else if single_dot seg then path_state path rest
      else path_state (path @ [seg]) rest)"

definition serialize_url ::
  "js_string \<Rightarrow> js_string \<Rightarrow> nat option \<Rightarrow> js_string list \<Rightarrow> js_string option \<Rightarrow> js_string option \<Rightarrow> js_string" where
  "serialize_url scheme host port path query fragment =
     scheme @ js ''://'' @ host
     @ (case port of None \<Rightarrow> [] | Some n \<Rightarrow> js '':'' @ decimal n)
     @ concat (map (\<lambda>seg. js ''/'' @ seg) path)
     @ (case query of None \<Rightarrow> [] | Some q \<Rightarrow> js ''?'' @ q)
     @ (case fragment of None \<Rightarrow> [] | Some f \<Rightarrow> js ''#'' @ f)"

definition default_port :: "js_string \<Rightarrow> nat" where
  "default_port scheme = (if scheme = js ''http'' then 80 else 443)"

text \<open>The states after the scheme: \<open>input\<close> is what follows the colon.\<close>

definition parse_after_scheme :: "js_string \<Rightarrow> js_string \<Rightarrow> parse_result" where
  "parse_after_scheme scheme input =
     (let after_slashes = dropWhile is_slash input;
          authority = takeWhile (\<lambda>c. \<not> ends_authority c) after_slashes;
          tail = dropWhile (\<lambda>c. \<not> ends_authority c) after_slashes;
          host = map ascii_lower (takeWhile (\<lambda>c. c \<noteq> 0x3A) authority);
          port_digits = drop 1 (dropWhile (\<lambda>c. c \<noteq> 0x3A) authority);
          path_input = (case tail of [] \<Rightarrow> [] | c # r \<Rightarrow> if is_slash c then r else tail);
          path_string = takeWhile (\<lambda>c. c \<noteq> 0x3F \<and> c \<noteq> 0x23) path_input;
          after_path = dropWhile (\<lambda>c. c \<noteq> 0x3F \<and> c \<noteq> 0x23) path_input;
          query_string = takeWhile (\<lambda>c. c \<noteq> 0x23) (drop 1 after_path);
          after_query = (if take 1 after_path = js ''?'' then dropWhile (\<lambda>c. c \<noteq> 0x23) (drop 1 after_path)
                         else after_path)
      in
      if list_ex (\<lambda>c. c = 0x40 \<or> c = 0x5B \<or> c = 0x5D) authority \<or> \<not> modelled_host host then Unmodelled
      else if host = [] \<or> list_ex forbidden_domain_unit host then Failure
      else if \<not> list_all is_digit port_digits \<or> 65535 < port_number port_digits then Failure
      else
        Parsed \<lparr>protocol = scheme @ js '':'',
                href = serialize_url scheme host
                  (if port_digits = [] \<or> port_number port_digits = default_port scheme then None
                   else Some (port_number port_digits))
                  (path_state [] (map (percent_encode path_set) (split_on is_slash path_string)))
                  (if take 1 after_path = js ''?'' then Some (percent_encode special_query_set query_string)
                   else None)
                  (if take 1 after_query = js ''#'' then Some (percent_encode fragment_set (drop 1 after_query))
                   else None)\<rparr>)"

definition basic_parse :: "js_string \<Rightarrow> parse_result" where
  "basic_parse input =
     (let s = remove_tab_newline (strip_c0_space input) in
      if list_ex (\<lambda>c. 0x7F < c \<or> c = 0x5E) s then Unmodelled
      else if map ascii_lower (take 5 s) = js ''http:'' then parse_after_scheme (js ''http'') (drop 5 s)
      else if map ascii_lower (take 6 s) = js ''https:'' then parse_after_scheme (js ''https'') (drop 6 s)
      else Unmodelled)"

definition URL_parser :: "(js_string \<Rightarrow> URL option) \<Rightarrow> js_string \<Rightarrow> URL option" where
  "URL_parser other input =
     (case basic_parse input of Parsed u \<Rightarrow> Some u | Failure \<Rightarrow> None | Unmodelled \<Rightarrow> other input)"

section \<open>Serialized URLs\<close>

text \<open>
  The parts of a URL as the model serializes them after a successful parse: the code
  units that are left after percent-encoding, segments without dots, a port in range.
\<close>

definition clean_unit :: "code_unit \<Rightarrow> bool" where
  "clean_unit c = (0x20 < c \<and> c < 0x7F \<and> c \<noteq> 0x5E)"

definition no_dot_segment :: "js_string \<Rightarrow> bool" where
  "no_dot_segment seg = (\<not> single_dot seg \<and> \<not> double_dot seg)"

definition parts_ok ::
  "js_string \<Rightarrow> js_string \<Rightarrow> nat option \<Rightarrow> js_string list \<Rightarrow> js_string option \<Rightarrow> js_string option \<Rightarrow> bool" where
  "parts_ok scheme host port path query fragment =
     ((scheme = js ''http'' \<or> scheme = js ''https'')
      \<and> host \<noteq> [] \<and> list_all plain_host_unit host \<and> modelled_host host
      \<and> (case port of None \<Rightarrow> True | Some n \<Rightarrow> n \<le> 65535 \<and> n \<noteq> default_port scheme)
      \<and> path \<noteq> []
      \<and> list_all (\<lambda>seg. list_all (\<lambda>c. clean_unit c \<and> \<not> path_set c \<and> \<not> is_slash c) seg
                         \<and> no_dot_segment seg) path
      \<and> (case query of None \<Rightarrow> True
          | Some q \<Rightarrow> list_all (\<lambda>c. clean_unit c \<and> \<not> special_query_set c) q)
      \<and> (case fragment of None \<Rightarrow> True
          | Some f \<Rightarrow> list_all (\<lambda>c. clean_unit c \<and> \<not> fragment_set c) f))"

section \<open>A configuration for concrete runs\<close>

text \<open>
  The default \<open>BASE_URL\<close> and the parser above, failing where it is not modelled; an
  environment in which every Redis command completes.
\<close>

definition example_config :: config where
  "example_config = \<lparr>new_URL = URL_parser (\<lambda>_. None), BASE_URL = js ''http://localhost:3000''\<rparr>"

definition example_env :: "bytes4 list \<Rightarrow> env" where
  "example_env rs = \<lparr>random_bytes = rs, date_now = js ''2024-01-01T00:00:00.000Z'',
     get_ok = True, set_ok = True, del_ok = True\<rparr>"

text \<open>
  Two draws of random bytes, with the codes \<open>EjRWeA\<close> and \<open>AQIDBA\<close>; the state after
  \<open>github.com\<close> was shortened with the first draw while Redis was connected; and the same
  state with the record gone and its key still in Redis.
\<close>

definition draw1 :: bytes4 where
  "draw1 = (0x12, 0x34, 0x56, 0x78)"

definition draw2 :: bytes4 where
  "draw2 = (0x01, 0x02, 0x03, 0x04)"

definition github_row :: UrlRow where
  "github_row = \<lparr>code = js ''EjRWeA'', original_url = js ''https://github.com/'',
     created_at = js ''2024-01-01T00:00:00.000Z'', visits = 0\<rparr>"

definition github_state :: state where
  "github_state = \<lparr>urls = [github_row], redis = [(js ''url:EjRWeA'', js ''https://github.com/'')],
     redisConnected = True\<rparr>"

definition stale_state :: state where
  "stale_state = \<lparr>urls = [], redis = [(js ''url:EjRWeA'', js ''https://github.com/'')],
     redisConnected = True\<rparr>"

text \<open>
  Three runs from the start: \<open>github.com\<close> is shortened with Redis connected; then
  \<open>example.org\<close> is shortened with a first draw that collides; or else the connection
  is lost, the record is removed and the connection comes back.
\<close>

definition create_events :: "event list" where
  "create_events = [RedisReady, Shorten (example_env [draw1]) (Str (js ''github.com''))]"

definition retry_events :: "event list" where
  "retry_events = create_events @ [Shorten (example_env [draw1, draw2]) (Str (js ''example.org''))]"

definition stale_events :: "event list" where
  "stale_events = create_events @ [RedisError, Remove (example_env []) (js ''EjRWeA''), RedisReady]"

section \<open>Evaluation on concrete inputs\<close>

lemmas parser_defs = normalizeUrl_def URL_parser_def basic_parse_def has_http_prefix_def js_def
  ascii_lower_def strip_c0_space_def remove_tab_newline_def parse_after_scheme_def is_slash_def
  ends_authority_def modelled_host_def plain_host_unit_def forbidden_domain_unit_def is_digit_def
  is_hex_def ends_in_number_def last_label_def port_number_def serialize_url_def percent_encode_def
  path_set_def query_set_def special_query_set_def fragment_set_def c0_control_set_def
  single_dot_def double_dot_def default_port_def hex_digits_def percent_encode_byte_def decimal.simps

lemmas handler_defs = shorten_def resolve_def remove_def stats_all_def stats_one_def stats_of_def
  cacheGet_def cacheSet_def cacheDel_def findByUrl_def findByCode_def insert_row_def deleteByCode_def
  incrementVisits_def listAll_def short_url_def missing_url_def invalid_url_def not_found_def
  step_def respond_def init_def trim_def is_white_space_def b64_symbol_def b64_alphabet_def

lemmas example_defs = example_config_def example_env_def draw1_def draw2_def github_row_def
  github_state_def stale_state_def create_events_def retry_events_def stale_events_def

lemma run_create: "run example_config init create_events = Some github_state"
  by (simp add: example_defs handler_defs parser_defs)

lemma run_retry:
  "run example_config init retry_events = Some (the (run example_config init retry_events))"
  by (simp add: example_defs handler_defs parser_defs)

lemma run_retry_codes:
  "map code (urls (the (run example_config init retry_events))) = [js ''EjRWeA'', js ''AQIDBA'']"
  by (simp add: example_defs handler_defs parser_defs)

lemma run_stale: "run example_config init stale_events = Some stale_state"
  by (simp add: example_defs handler_defs parser_defs)

section \<open>The code generator\<close>

lemma b64_length: "length b64_alphabet = 64"
  by (simp add: b64_alphabet_def js_def)

lemma b64_url_safe: "list_all url_safe b64_alphabet"
  by (simp add: b64_alphabet_def js_def url_safe_def)

lemma b64_distinct: "distinct b64_alphabet"
  by (simp add: b64_alphabet_def js_def)

lemma b64_symbol_mem: "v < 64 \<Longrightarrow> b64_symbol v \<in> set b64_alphabet"
proof -
  assume "v < 64"
  then have "unat v < 64" by (simp add: word_less_nat_alt)
  then show ?thesis by (simp add: b64_symbol_def b64_length)
qed

lemma lt64I: "(x::byte) AND mask 6 = x \<Longrightarrow> x < 64"
proof -
  assume h: "x AND mask 6 = x"
  have "x AND mask 6 \<le> mask 6" by (rule word_and_le1)
  with h have "x \<le> 63" by (simp add: mask_eq_exp_minus_1)
  then show ?thesis by (simp add: word_le_nat_alt word_less_nat_alt)
qed

lemma m3: "(3::byte) = mask 2" and m15: "(15::byte) = mask 4" and m63: "(63::byte) = mask 6"
  by (simp_all add: mask_eq_exp_minus_1)

lemma sextet1: "drop_bit 2 (a::byte) < 64"
  by (rule lt64I) (auto simp: bit_eq_iff bit_simps dest: bit_imp_le_length)

lemma sextet2: "(push_bit 4 (a AND 3) OR drop_bit 4 b :: byte) < 64"
  unfolding m3 by (rule lt64I) (auto simp: bit_eq_iff bit_simps dest: bit_imp_le_length)

lemma sextet3: "(push_bit 2 (b AND 15) OR drop_bit 6 c :: byte) < 64"
  unfolding m15 by (rule lt64I) (auto simp: bit_eq_iff bit_simps dest: bit_imp_le_length)

lemma sextet4: "(c AND 63 :: byte) < 64"
  unfolding m63 by (rule lt64I) (auto simp: bit_eq_iff bit_simps dest: bit_imp_le_length)

lemma sextet5: "(push_bit 4 (a AND 3) :: byte) < 64"
  unfolding m3 by (rule lt64I) (auto simp: bit_eq_iff bit_simps dest: bit_imp_le_length)

lemma generateCode_symbols:
  "generateCode (a, b, c, d) =
     [b64_symbol (drop_bit 2 a), b64_symbol (push_bit 4 (a AND 3) OR drop_bit 4 b),
      b64_symbol (push_bit 2 (b AND 15) OR drop_bit 6 c), b64_symbol (c AND 63),
      b64_symbol (drop_bit 2 d), b64_symbol (push_bit 4 (d AND 3))]"
  by simp

text \<open>
  C7. Whatever the four random bytes are, the code has exactly six symbols, each of the
  alphabet of base64url, which has 64 distinct symbols, all of them among A-Z, a-z, 0-9,
  \<open>-\<close> and \<open>_\<close>.
\<close>

theorem generateCode_six_url_safe:
  "length (generateCode r) = 6 \<and> set (generateCode r) \<subseteq> set b64_alphabet
   \<and> list_all url_safe (generateCode r) \<and> length b64_alphabet = 64 \<and> distinct b64_alphabet"
proof -
  obtain a b c d where r: "r = (a, b, c, d)" by (cases r) auto
  have mem: "set (generateCode r) \<subseteq> set b64_alphabet"
    unfolding r generateCode_symbols
    using b64_symbol_mem [OF sextet1] b64_symbol_mem [OF sextet2] b64_symbol_mem [OF sextet3]
      b64_symbol_mem [OF sextet4] b64_symbol_mem [OF sextet5]
    by simp
  have len: "length (generateCode r) = 6"
    unfolding r generateCode_symbols by simp
  from mem b64_url_safe have "list_all url_safe (generateCode r)"
    unfolding list_all_iff by blast
  with mem len show ?thesis
    by (simp add: b64_length b64_distinct)
qed

section \<open>The store\<close>

lemma findByCode_None_iff: "findByCode t c = None \<longleftrightarrow> c \<notin> set (map code t)"
  by (auto simp: findByCode_def find_None_iff)

lemma findByCode_Some_code: "findByCode t c = Some r \<Longrightarrow> code r = c \<and> r \<in> set t"
  by (auto simp: findByCode_def find_Some_iff)

lemma findByUrl_Some_url: "findByUrl t u = Some r \<Longrightarrow> original_url r = u \<and> r \<in> set t"
  by (auto simp: findByUrl_def find_Some_iff)

lemma findByCode_append:
  "findByCode (t @ t') c = (case findByCode t c of None \<Rightarrow> findByCode t' c | Some r \<Rightarrow> Some r)"
  by (induction t) (auto simp: findByCode_def)

lemma findByUrl_append:
  "findByUrl (t @ t') u = (case findByUrl t u of None \<Rightarrow> findByUrl t' u | Some r \<Rightarrow> Some r)"
  by (induction t) (auto simp: findByUrl_def)

lemma list_ex_code: "list_ex (\<lambda>r. code r = c) t \<longleftrightarrow> c \<in> set (map code t)"
  by (auto simp: list_ex_iff)

lemma fresh_code_Some:
  "fresh_code t rs = Some c \<Longrightarrow> findByCode t c = None \<and> c \<in> generateCode ` set rs"
  by (induction rs) (auto split: if_splits)

lemma insert_row_fresh:
  "findByCode t c = None \<Longrightarrow>
   insert_row t c u ts = Inr (t @ [\<lparr>code = c, original_url = u, created_at = ts, visits = 0\<rparr>])"
  by (simp add: insert_row_def list_ex_code findByCode_None_iff)

lemma map_code_incrementVisits: "map code (incrementVisits t c) = map code t"
  by (induction t) (auto simp: incrementVisits_def)

lemma findByCode_incrementVisits:
  "findByCode (incrementVisits t c) c' =
     (case findByCode t c' of None \<Rightarrow> None
      | Some r \<Rightarrow> Some (if c' = c then r\<lparr>visits := visits r + 1\<rparr> else r))"
  by (induction t) (auto simp: incrementVisits_def findByCode_def)

lemma findByCode_delete:
  "findByCode (snd (deleteByCode t c)) c' = (if c' = c then None else findByCode t c')"
  by (induction t) (auto simp: deleteByCode_def findByCode_def)

lemma changes_zero_iff: "fst (deleteByCode t c) = 0 \<longleftrightarrow> findByCode t c = None"
  by (auto simp: deleteByCode_def findByCode_None_iff filter_empty_conv)

lemma delete_absent: "findByCode t c = None \<Longrightarrow> snd (deleteByCode t c) = t"
  by (auto simp: deleteByCode_def findByCode_None_iff filter_id_conv)

lemma changes_one:
  "distinct (map code t) \<Longrightarrow> findByCode t c \<noteq> None \<Longrightarrow> fst (deleteByCode t c) = 1"
proof (induction t)
  case Nil
  then show ?case by (simp add: findByCode_def)
next
  case (Cons r t)
  show ?case
  proof (cases "code r = c")
    case True
    with Cons.prems have "c \<notin> set (map code t)" by simp
    then have "filter (\<lambda>r. code r = c) t = []" by (auto simp: filter_empty_conv)
    with True show ?thesis by (simp add: deleteByCode_def)
  next
    case False
    with Cons show ?thesis by (simp add: deleteByCode_def findByCode_def)
  qed
qed

section \<open>The handlers, case by case\<close>

lemma urls_cacheSet [simp]: "urls (cacheSet ok s c u) = urls s"
  by (simp add: cacheSet_def)

lemma urls_cacheDel [simp]: "urls (cacheDel ok s c) = urls s"
  by (simp add: cacheDel_def)

lemma connected_cacheSet [simp]: "redisConnected (cacheSet ok s c u) = redisConnected s"
  by (simp add: cacheSet_def)

lemma connected_cacheDel [simp]: "redisConnected (cacheDel ok s c) = redisConnected s"
  by (simp add: cacheDel_def)

text \<open>A request that creates a record: what was checked, and the state it leaves.\<close>

lemma shorten_created:
  assumes "shorten cfg e s b = Some (Json 201 body, s')"
  obtains url c n where
    "b = Str url" "url \<noteq> []" "normalizeUrl (new_URL cfg) (trim url) = Some n" "n \<noteq> []"
    "findByUrl (urls s) n = None" "fresh_code (urls s) (random_bytes e) = Some c"
    "findByCode (urls s) c = None"
    "body = Shortened (short_url cfg c) c n"
    "s' = cacheSet (set_ok e)
            (s\<lparr>urls := urls s @ [\<lparr>code = c, original_url = n, created_at = date_now e, visits = 0\<rparr>]\<rparr>) c n"
proof -
  from assms obtain url where b: "b = Str url" and url: "url \<noteq> []"
    by (cases b) (auto simp: shorten_def missing_url_def split: if_splits)
  from assms b url obtain n where n: "normalizeUrl (new_URL cfg) (trim url) = Some n" "n \<noteq> []"
    by (auto simp: shorten_def invalid_url_def split: option.splits if_splits)
  from assms b url n have nf: "findByUrl (urls s) n = None"
    by (auto simp: shorten_def split: option.splits)
  from assms b url n nf obtain c where c: "fresh_code (urls s) (random_bytes e) = Some c"
    by (auto simp: shorten_def split: option.splits)
  then have fc: "findByCode (urls s) c = None"
    by (simp add: fresh_code_Some)
  from assms b url n nf c fc have
    "body = Shortened (short_url cfg c) c n"
    "s' = cacheSet (set_ok e)
            (s\<lparr>urls := urls s @ [\<lparr>code = c, original_url = n, created_at = date_now e, visits = 0\<rparr>]\<rparr>) c n"
    by (auto simp: shorten_def insert_row_fresh)
  with b url n nf c fc show thesis
    by (rule that)
qed

text \<open>Every other answer of \<open>shorten\<close> leaves the state as it was.\<close>

lemma shorten_other:
  assumes "shorten cfg e s b = Some (resp, s')" and "\<forall>body. resp \<noteq> Json 201 body"
  shows "s' = s"
  using assms
  by (auto simp: shorten_def split: body_url.splits if_splits option.splits sum.splits)

lemma shorten_urls:
  assumes "shorten cfg e s b = Some (resp, s')"
  shows "urls s' = urls s \<or>
         (\<exists>c n. findByCode (urls s) c = None \<and> resp = Json 201 (Shortened (short_url cfg c) c n) \<and>
            urls s' = urls s @ [\<lparr>code = c, original_url = n, created_at = date_now e, visits = 0\<rparr>])"
proof (cases "\<exists>body. resp = Json 201 body")
  case True
  then obtain body where "resp = Json 201 body" by blast
  with assms show ?thesis
    by (auto elim!: shorten_created)
next
  case False
  with assms have "s' = s" by (auto dest: shorten_other)
  then show ?thesis by simp
qed

lemma resolve_urls:
  "urls (snd (resolve e s c)) = urls s \<or> urls (snd (resolve e s c)) = incrementVisits (urls s) c"
  by (auto simp: resolve_def Let_def split: option.splits)

lemma remove_urls: "urls (snd (remove e s c)) = snd (deleteByCode (urls s) c)"
  by (auto simp: remove_def split: prod.splits)

lemma step_urls:
  assumes "step cfg s ev = Some s'"
  shows "urls s' = urls s
         \<or> (\<exists>e b c n. ev = Shorten e b \<and> findByCode (urls s) c = None \<and>
              urls s' = urls s @ [\<lparr>code = c, original_url = n, created_at = date_now e, visits = 0\<rparr>])
         \<or> (\<exists>e c. ev = Resolve e c \<and> urls s' = incrementVisits (urls s) c)
         \<or> (\<exists>e c. ev = Remove e c \<and> urls s' = snd (deleteByCode (urls s) c))"
proof (cases ev)
  case (Shorten e b)
  with assms obtain resp where "shorten cfg e s b = Some (resp, s')"
    by (auto simp: step_def respond_def)
  from shorten_urls [OF this] Shorten show ?thesis by auto
next
  case (Resolve e c)
  with assms have "s' = snd (resolve e s c)" by (auto simp: step_def respond_def)
  with resolve_urls [of e s c] Resolve show ?thesis by auto
next
  case (Remove e c)
  with assms have "s' = snd (remove e s c)" by (auto simp: step_def respond_def)
  with remove_urls [of e s c] Remove show ?thesis by auto
qed (use assms in \<open>auto simp: step_def respond_def stats_all_def stats_one_def split: option.splits if_splits\<close>)

section \<open>Uniqueness of codes\<close>

lemma step_distinct:
  assumes "step cfg s ev = Some s'" and "distinct (map code (urls s))"
  shows "distinct (map code (urls s'))"
  using step_urls [OF assms(1)] assms(2)
  by (auto simp: map_code_incrementVisits findByCode_None_iff deleteByCode_def distinct_map_filter)

lemma run_distinct:
  "run cfg s evs = Some s' \<Longrightarrow> distinct (map code (urls s)) \<Longrightarrow> distinct (map code (urls s'))"
proof (induction evs arbitrary: s)
  case Nil
  then show ?case by simp
next
  case (Cons ev evs)
  then obtain s1 where s1: "step cfg s ev = Some s1" and r: "run cfg s1 evs = Some s'"
    by (auto split: option.splits)
  from step_distinct [OF s1 Cons.prems(2)] Cons.IH [OF r] show ?case by simp
qed

text \<open>
  C3. In every state that a run of the service reaches from the empty store, whatever
  the requests and the events of Redis, no two records have the same code. And two
  requests that each create a record, one after the other, create them with different
  codes.
\<close>

theorem codes_unique:
  "(run cfg init evs = Some s \<longrightarrow> distinct (map code (urls s)))
   \<and> (shorten cfg e1 s1 b1 = Some (Json 201 (Shortened l1 c1 n1), s2)
        \<and> shorten cfg e2 s2 b2 = Some (Json 201 (Shortened l2 c2 n2), s3) \<longrightarrow> c1 \<noteq> c2)"
proof (intro conjI impI)
  assume "run cfg init evs = Some s"
  then show "distinct (map code (urls s))"
    by (rule run_distinct) (simp add: init_def)
next
  assume h: "shorten cfg e1 s1 b1 = Some (Json 201 (Shortened l1 c1 n1), s2)
             \<and> shorten cfg e2 s2 b2 = Some (Json 201 (Shortened l2 c2 n2), s3)"
  from h have "c1 \<in> set (map code (urls s2))"
    by (auto elim!: shorten_created)
  moreover from h have "findByCode (urls s2) c2 = None"
    by (auto elim!: shorten_created)
  ultimately show "c1 \<noteq> c2"
    by (auto simp: findByCode_None_iff)
qed

theorem codes_unique_witness:
  "run example_config init retry_events \<noteq> None
   \<and> map code (urls (the (run example_config init retry_events))) = [js ''EjRWeA'', js ''AQIDBA'']
   \<and> distinct (map code (urls (the (run example_config init retry_events))))"
proof -
  from codes_unique [of example_config retry_events "the (run example_config init retry_events)"]
  have "distinct (map code (urls (the (run example_config init retry_events))))"
    using run_retry by blast
  moreover have "run example_config init retry_events \<noteq> None"
    using run_retry by (metis option.distinct(1))
  ultimately show ?thesis
    using run_retry_codes by blast
qed

section \<open>Removal\<close>

lemma remove_absent:
  assumes "findByCode (urls s) c = None"
  shows "remove e s c = (not_found, s)"
proof -
  from assms have "deleteByCode (urls s) c = (0, urls s)"
    using changes_zero_iff [of "urls s" c] delete_absent [of "urls s" c]
    by (cases "deleteByCode (urls s) c") simp
  then show ?thesis by (simp add: remove_def)
qed

lemma remove_present:
  "findByCode (urls s) c \<noteq> None \<Longrightarrow>
   remove e s c = (Json 200 (Message (js ''Deleted'')),
                   cacheDel (del_ok e) (s\<lparr>urls := snd (deleteByCode (urls s) c)\<rparr>) c)"
  using changes_zero_iff [of "urls s" c]
  by (auto simp: remove_def split: prod.splits)

lemma deleted_is_not_not_found: "Json 200 (Message (js ''Deleted'')) \<noteq> not_found"
  by (simp add: not_found_def)

lemma resolve_miss_absent:
  assumes "findByCode (urls s) c = None"
    and "\<not> redisConnected s \<or> map_of (redis s) (js ''url:'' @ c) = None"
  shows "resolve e s c = (not_found, s)"
  using assms by (auto simp: resolve_def cacheGet_def)

text \<open>
  C4. \<open>remove\<close> answers \<open>Deleted\<close> exactly when a record with the code exists, and then
  the delete removed exactly one row where codes are unique, as they are in every state
  that a run reaches. Otherwise it answers
  \<open>not found\<close> and the state is the one before. After a successful \<open>remove\<close>, in any state
  with the same table in which Redis is not connected or holds no key for the code,
  \<open>resolve\<close> answers \<open>not found\<close>.
\<close>

theorem remove_found_iff:
  "(fst (remove e s c) = Json 200 (Message (js ''Deleted'')) \<longleftrightarrow> findByCode (urls s) c \<noteq> None)
   \<and> (findByCode (urls s) c = None \<longrightarrow> remove e s c = (not_found, s))
   \<and> (findByCode (urls s) c \<noteq> None \<and> distinct (map code (urls s)) \<longrightarrow>
        fst (deleteByCode (urls s) c) = 1)
   \<and> (findByCode (urls s) c \<noteq> None \<and> run cfg init evs = Some s \<longrightarrow>
        fst (deleteByCode (urls s) c) = 1)
   \<and> (fst (remove e s c) = Json 200 (Message (js ''Deleted''))
        \<and> urls s' = urls (snd (remove e s c))
        \<and> (\<not> redisConnected s' \<or> map_of (redis s') (js ''url:'' @ c) = None) \<longrightarrow>
        resolve e' s' c = (not_found, s'))"
proof (intro conjI impI)
  show "fst (remove e s c) = Json 200 (Message (js ''Deleted'')) \<longleftrightarrow> findByCode (urls s) c \<noteq> None"
    using remove_absent [of s c e] remove_present [of s c e] deleted_is_not_not_found
    by (cases "findByCode (urls s) c") auto
next
  assume "findByCode (urls s) c = None"
  then show "remove e s c = (not_found, s)" by (rule remove_absent)
next
  assume "findByCode (urls s) c \<noteq> None \<and> distinct (map code (urls s))"
  then show "fst (deleteByCode (urls s) c) = 1" by (simp add: changes_one)
next
  assume h: "findByCode (urls s) c \<noteq> None \<and> run cfg init evs = Some s"
  then have "distinct (map code (urls s))"
    by (auto intro: run_distinct simp: init_def)
  with h show "fst (deleteByCode (urls s) c) = 1" by (simp add: changes_one)
next
  assume h: "fst (remove e s c) = Json 200 (Message (js ''Deleted''))
        \<and> urls s' = urls (snd (remove e s c))
        \<and> (\<not> redisConnected s' \<or> map_of (redis s') (js ''url:'' @ c) = None)"
  have "findByCode (urls (snd (remove e s c))) c = None"
    by (simp add: remove_urls findByCode_delete)
  with h show "resolve e' s' c = (not_found, s')"
    by (intro resolve_miss_absent) auto
qed

lemma remove_github:
  "remove (example_env []) github_state (js ''EjRWeA'') =
     (Json 200 (Message (js ''Deleted'')), \<lparr>urls = [], redis = [], redisConnected = True\<rparr>)"
  by (simp add: example_defs handler_defs js_def)

theorem remove_found_iff_witness:
  "findByCode (urls github_state) (js ''EjRWeA'') \<noteq> None
   \<and> run example_config init create_events = Some github_state
   \<and> distinct (map code (urls github_state))
   \<and> fst (remove (example_env []) github_state (js ''EjRWeA'')) = Json 200 (Message (js ''Deleted''))
   \<and> fst (deleteByCode (urls github_state) (js ''EjRWeA'')) = 1
   \<and> resolve (example_env []) (snd (remove (example_env []) github_state (js ''EjRWeA''))) (js ''EjRWeA'')
       = (not_found, snd (remove (example_env []) github_state (js ''EjRWeA'')))
   \<and> findByCode (urls stale_state) (js ''EjRWeA'') = None
   \<and> remove (example_env []) stale_state (js ''EjRWeA'') = (not_found, stale_state)"
proof -
  let ?s' = "snd (remove (example_env []) github_state (js ''EjRWeA''))"
  have a: "findByCode (urls github_state) (js ''EjRWeA'') \<noteq> None"
    by (simp add: example_defs handler_defs js_def)
  have b: "distinct (map code (urls github_state))"
    by (simp add: example_defs)
  have c: "map_of (redis ?s') (js ''url:'' @ js ''EjRWeA'') = None"
    by (simp add: remove_github)
  have d: "findByCode (urls stale_state) (js ''EjRWeA'') = None"
    by (simp add: example_defs handler_defs)
  from remove_found_iff [of "example_env []" github_state "js ''EjRWeA''" example_config create_events
         ?s' "example_env []"] a b c run_create
       remove_found_iff [of "example_env []" stale_state "js ''EjRWeA''"] d
  show ?thesis by blast
qed

section \<open>Visits\<close>

lemma incrementVisits_absent: "findByCode t c = None \<Longrightarrow> incrementVisits t c = t"
  by (induction t) (auto simp: incrementVisits_def findByCode_def split: if_splits)

lemma resolve_present:
  assumes "findByCode (urls s) c = Some r"
  shows "\<exists>u. fst (resolve e s c) = Redirect u"
    and "urls (snd (resolve e s c)) = incrementVisits (urls s) c"
  using assms by (auto simp: resolve_def Let_def)

lemma resolve_absent_urls:
  assumes "findByCode (urls s) c = None"
  shows "urls (snd (resolve e s c)) = urls s"
  using assms by (auto simp: resolve_def Let_def incrementVisits_absent)

lemma resolve_no_hit_absent:
  assumes "findByCode (urls s) c = None"
    and "cacheGet (get_ok e) s c = None \<or> cacheGet (get_ok e) s c = Some []"
  shows "fst (resolve e s c) = not_found"
  using assms by (auto simp: resolve_def Let_def)

lemma step_visits:
  assumes "step cfg s ev = Some s'"
    and "findByCode (urls s) c = Some r" and "findByCode (urls s') c = Some r'"
  shows "visits r \<le> visits r'" and "created_at r' = created_at r"
    and "original_url r' = original_url r" and "code r' = code r"
  using step_urls [OF assms(1)] assms(2,3)
  by (auto simp: findByCode_append findByCode_incrementVisits findByCode_delete split: if_splits)

text \<open>
  C5, as the code has it. \<open>resolve\<close> of a code that a record has redirects and adds
  exactly one to the visits of that record, as \<open>GET /stats/:code\<close> then shows. \<open>resolve\<close> of
  a code that no record has leaves the table as it is; it answers \<open>not found\<close> when the
  cache gives no URL for the code. A record is created with no visits, and no step of the
  service lowers the visits of a record.
\<close>

theorem resolve_counts_one_visit:
  "(findByCode (urls s) c = Some r \<longrightarrow>
      (\<exists>u. fst (resolve e s c) = Redirect u)
      \<and> findByCode (urls (snd (resolve e s c))) c = Some (r\<lparr>visits := visits r + 1\<rparr>)
      \<and> fst (stats_one cfg (snd (resolve e s c)) c) =
          Json 200 (Stats (StatsEntry (short_url cfg c) c (original_url r) (created_at r) (visits r + 1))))
   \<and> (findByCode (urls s) c = None \<longrightarrow>
        urls (snd (resolve e s c)) = urls s
        \<and> (cacheGet (get_ok e) s c = None \<or> cacheGet (get_ok e) s c = Some [] \<longrightarrow>
             fst (resolve e s c) = not_found))
   \<and> (shorten cfg e s b = Some (Json 201 (Shortened l c n), s') \<longrightarrow>
        findByCode (urls s') c = Some \<lparr>code = c, original_url = n, created_at = date_now e, visits = 0\<rparr>)
   \<and> (step cfg s ev = Some s' \<and> findByCode (urls s) c = Some r \<and> findByCode (urls s') c = Some r' \<longrightarrow>
        visits r \<le> visits r')"
proof (intro conjI impI)
  assume r: "findByCode (urls s) c = Some r"
  show "\<exists>u. fst (resolve e s c) = Redirect u"
    by (rule resolve_present(1) [OF r])
  show v: "findByCode (urls (snd (resolve e s c))) c = Some (r\<lparr>visits := visits r + 1\<rparr>)"
    by (simp add: resolve_present(2) [OF r] findByCode_incrementVisits r)
  from findByCode_Some_code [OF r] have "code r = c" by simp
  with v show "fst (stats_one cfg (snd (resolve e s c)) c) =
      Json 200 (Stats (StatsEntry (short_url cfg c) c (original_url r) (created_at r) (visits r + 1)))"
    by (simp add: stats_one_def stats_of_def)
next
  assume "findByCode (urls s) c = None"
  then show "urls (snd (resolve e s c)) = urls s" by (rule resolve_absent_urls)
next
  assume "findByCode (urls s) c = None"
    and "cacheGet (get_ok e) s c = None \<or> cacheGet (get_ok e) s c = Some []"
  then show "fst (resolve e s c) = not_found" by (rule resolve_no_hit_absent)
next
  assume "shorten cfg e s b = Some (Json 201 (Shortened l c n), s')"
  then show "findByCode (urls s') c = Some \<lparr>code = c, original_url = n, created_at = date_now e, visits = 0\<rparr>"
    by (auto elim!: shorten_created simp: findByCode_append) (simp add: findByCode_def)
next
  assume "step cfg s ev = Some s' \<and> findByCode (urls s) c = Some r \<and> findByCode (urls s') c = Some r'"
  then show "visits r \<le> visits r'" by (auto dest: step_visits(1))
qed

lemma resolve_github:
  "resolve (example_env []) github_state (js ''EjRWeA'') =
     (Redirect (js ''https://github.com/''), github_state\<lparr>urls := [github_row\<lparr>visits := 1\<rparr>]\<rparr>)"
  by (simp add: example_defs handler_defs js_def)

lemma find_github: "findByCode (urls github_state) (js ''EjRWeA'') = Some github_row"
  by (simp add: example_defs handler_defs js_def)

theorem resolve_counts_one_visit_witness:
  "findByCode (urls github_state) (js ''EjRWeA'') = Some github_row
   \<and> visits github_row = 0
   \<and> fst (resolve (example_env []) github_state (js ''EjRWeA'')) = Redirect (js ''https://github.com/'')
   \<and> fst (stats_one example_config (snd (resolve (example_env []) github_state (js ''EjRWeA''))) (js ''EjRWeA''))
       = Json 200 (Stats (StatsEntry (short_url example_config (js ''EjRWeA'')) (js ''EjRWeA'')
           (original_url github_row) (created_at github_row) (visits github_row + 1)))
   \<and> findByCode (urls init) (js ''EjRWeA'') = None
   \<and> fst (resolve (example_env []) init (js ''EjRWeA'')) = not_found"
proof -
  have a: "findByCode (urls init) (js ''EjRWeA'') = None"
    by (simp add: init_def findByCode_def)
  have b: "cacheGet (get_ok (example_env [])) init (js ''EjRWeA'') = None"
    by (simp add: init_def cacheGet_def)
  have c: "visits github_row = 0"
    by (simp add: github_row_def)
  from resolve_counts_one_visit [of github_state "js ''EjRWeA''" github_row "example_env []" example_config]
       resolve_counts_one_visit [of init "js ''EjRWeA''" _ "example_env []"]
       find_github resolve_github a b c
  show ?thesis by simp
qed

text \<open>
  C5 as it is stated fails where Redis still holds the key of a removed record: the
  record was removed while the connection was down, so the key was not deleted, and after
  the connection is back \<open>resolve\<close> of the code redirects although no record has it.
\<close>

theorem resolve_removed_code_counterexample:
  "run example_config init stale_events = Some stale_state
   \<and> findByCode (urls stale_state) (js ''EjRWeA'') = None
   \<and> fst (resolve (example_env []) stale_state (js ''EjRWeA'')) = Redirect (js ''https://github.com/'')
   \<and> fst (resolve (example_env []) stale_state (js ''EjRWeA'')) \<noteq> not_found"
  by (simp add: run_stale) (simp add: example_defs handler_defs js_def)

section \<open>What a redirect leaves alone\<close>

lemma incrementVisits_nth:
  assumes "i < length t"
  shows "code (incrementVisits t c ! i) = code (t ! i)"
    and "original_url (incrementVisits t c ! i) = original_url (t ! i)"
    and "created_at (incrementVisits t c ! i) = created_at (t ! i)"
    and "code (t ! i) \<noteq> c \<Longrightarrow> incrementVisits t c ! i = t ! i"
    and "code (t ! i) = c \<Longrightarrow> visits (incrementVisits t c ! i) = visits (t ! i) + 1"
  using assms by (simp_all add: incrementVisits_def)

text \<open>
  C9. \<open>resolve\<close> keeps the rows of the table in place; in each row the code, the URL and
  the time of creation stay, and a row with another code stays as a whole. Where a record
  has the code, the table afterwards is the old one with the visits of that code raised.
  In any step of the service a record that is there before and after keeps its code, its
  URL and its time of creation; a record is created with the time of the request.
\<close>

theorem resolve_frame:
  "length (urls (snd (resolve e s c))) = length (urls s)
   \<and> (\<forall>i<length (urls s).
         code (urls (snd (resolve e s c)) ! i) = code (urls s ! i)
         \<and> original_url (urls (snd (resolve e s c)) ! i) = original_url (urls s ! i)
         \<and> created_at (urls (snd (resolve e s c)) ! i) = created_at (urls s ! i)
         \<and> (code (urls s ! i) \<noteq> c \<longrightarrow> urls (snd (resolve e s c)) ! i = urls s ! i))
   \<and> (findByCode (urls s) c \<noteq> None \<longrightarrow> urls (snd (resolve e s c)) = incrementVisits (urls s) c)
   \<and> (step cfg s ev = Some s' \<and> findByCode (urls s) k = Some r \<and> findByCode (urls s') k = Some r' \<longrightarrow>
        created_at r' = created_at r \<and> original_url r' = original_url r \<and> code r' = code r)
   \<and> (shorten cfg e s b = Some (Json 201 (Shortened l k n), s') \<longrightarrow>
        (\<exists>r. findByCode (urls s') k = Some r \<and> created_at r = date_now e)
        \<and> findByCode (urls s) k = None)"
proof (intro conjI allI impI)
  show "length (urls (snd (resolve e s c))) = length (urls s)"
    using resolve_urls [of e s c] by (auto simp: incrementVisits_def)
next
  fix i assume i: "i < length (urls s)"
  from resolve_urls [of e s c] i incrementVisits_nth [of i "urls s" c]
  show "code (urls (snd (resolve e s c)) ! i) = code (urls s ! i)"
    and "original_url (urls (snd (resolve e s c)) ! i) = original_url (urls s ! i)"
    and "created_at (urls (snd (resolve e s c)) ! i) = created_at (urls s ! i)"
    by auto
  assume "code (urls s ! i) \<noteq> c"
  with resolve_urls [of e s c] i incrementVisits_nth(4) [of i "urls s" c]
  show "urls (snd (resolve e s c)) ! i = urls s ! i"
    by auto
next
  assume "findByCode (urls s) c \<noteq> None"
  then show "urls (snd (resolve e s c)) = incrementVisits (urls s) c"
    by (auto dest: resolve_present(2))
next
  assume h: "step cfg s ev = Some s' \<and> findByCode (urls s) k = Some r \<and> findByCode (urls s') k = Some r'"
  then show "created_at r' = created_at r" "original_url r' = original_url r" "code r' = code r"
    by (auto dest: step_visits)
next
  assume h: "shorten cfg e s b = Some (Json 201 (Shortened l k n), s')"
  then show "\<exists>r. findByCode (urls s') k = Some r \<and> created_at r = date_now e"
    by (auto elim!: shorten_created simp: findByCode_append) (simp add: findByCode_def)
  from h show "findByCode (urls s) k = None"
    by (auto elim!: shorten_created)
qed

theorem resolve_frame_witness:
  "(0::nat) < length (urls github_state)
   \<and> findByCode (urls github_state) (js ''EjRWeA'') \<noteq> None
   \<and> urls (snd (resolve (example_env []) github_state (js ''EjRWeA''))) = [github_row\<lparr>visits := 1\<rparr>]
   \<and> created_at (urls (snd (resolve (example_env []) github_state (js ''EjRWeA''))) ! 0)
       = created_at (urls github_state ! 0)
   \<and> urls (snd (resolve (example_env []) github_state (js ''AQIDBA''))) ! 0 = urls github_state ! 0"
proof -
  note t1 = resolve_frame [of "example_env []" github_state "js ''EjRWeA''"]
  note t2 = resolve_frame [of "example_env []" github_state "js ''AQIDBA''"]
  have a: "(0::nat) < length (urls github_state)"
    by (simp add: github_state_def)
  have b: "code (urls github_state ! 0) \<noteq> js ''AQIDBA''"
    by (simp add: github_state_def github_row_def js_def)
  have f: "findByCode (urls github_state) (js ''EjRWeA'') \<noteq> None"
    by (simp add: find_github)
  from t1 f have u: "urls (snd (resolve (example_env []) github_state (js ''EjRWeA'')))
      = incrementVisits (urls github_state) (js ''EjRWeA'')"
    by blast
  have v: "incrementVisits (urls github_state) (js ''EjRWeA'') = [github_row\<lparr>visits := 1\<rparr>]"
    by (simp add: example_defs handler_defs js_def)
  from t1 a have c1: "created_at (urls (snd (resolve (example_env []) github_state (js ''EjRWeA''))) ! 0)
       = created_at (urls github_state ! 0)"
    by blast
  from t2 a b have c2: "urls (snd (resolve (example_env []) github_state (js ''AQIDBA''))) ! 0
       = urls github_state ! 0"
    by blast
  from a f u v c1 c2 show ?thesis by (simp only: simp_thms)
qed

section \<open>Creation\<close>

lemma shorten_existing:
  assumes "url \<noteq> []" and "normalizeUrl (new_URL cfg) (trim url) = Some n" and "n \<noteq> []"
    and "findByUrl (urls s) n = Some r"
  shows "shorten cfg e s (Str url) = Some (Json 200 (Shortened (short_url cfg (code r)) (code r) n), s)"
  using assms by (simp add: shorten_def)

lemma shorten_new:
  assumes "url \<noteq> []" and "normalizeUrl (new_URL cfg) (trim url) = Some n" and "n \<noteq> []"
    and "findByUrl (urls s) n = None" and "shorten cfg e s (Str url) = Some (resp, s')"
  obtains c where "findByCode (urls s) c = None"
    "resp = Json 201 (Shortened (short_url cfg c) c n)"
    "s' = cacheSet (set_ok e)
            (s\<lparr>urls := urls s @ [\<lparr>code = c, original_url = n, created_at = date_now e, visits = 0\<rparr>]\<rparr>) c n"
proof -
  from assms obtain c where c: "fresh_code (urls s) (random_bytes e) = Some c"
    by (auto simp: shorten_def split: option.splits)
  then have f: "findByCode (urls s) c = None" by (simp add: fresh_code_Some)
  with assms c show thesis
    by (intro that [of c]) (auto simp: shorten_def insert_row_fresh)
qed

text \<open>The loop ends as soon as a draw gives a code that no row has.\<close>

lemma fresh_code_returns:
  "\<exists>r\<in>set rs. findByCode t (generateCode r) = None \<Longrightarrow> \<exists>c. fresh_code t rs = Some c"
  by (induction rs) auto

lemma shorten_returns:
  assumes "url \<noteq> []" and "normalizeUrl (new_URL cfg) (trim url) = Some n" and "n \<noteq> []"
    and "findByUrl (urls s) n \<noteq> None
         \<or> (\<exists>r\<in>set (random_bytes e). findByCode (urls s) (generateCode r) = None)"
  shows "\<exists>resp s'. shorten cfg e s (Str url) = Some (resp, s')"
proof (cases "findByUrl (urls s) n")
  case (Some r)
  with assms(1-3) show ?thesis by (simp add: shorten_def)
next
  case None
  with assms(4) obtain c where c: "fresh_code (urls s) (random_bytes e) = Some c"
    using fresh_code_returns by blast
  then have "findByCode (urls s) c = None" by (simp add: fresh_code_Some)
  with assms(1-3) None c show ?thesis
    by (simp add: shorten_def insert_row_fresh)
qed

lemma shorten_twice:
  assumes "shorten cfg e1 s (Str u1) = Some (resp1, s1)"
    and "u1 \<noteq> []" and "u2 \<noteq> []"
    and "normalizeUrl (new_URL cfg) (trim u1) = Some n"
    and "normalizeUrl (new_URL cfg) (trim u2) = Some n"
    and "n \<noteq> []"
  shows "\<exists>c. (resp1 = Json 200 (Shortened (short_url cfg c) c n)
              \<or> resp1 = Json 201 (Shortened (short_url cfg c) c n))
             \<and> shorten cfg e2 s1 (Str u2) = Some (Json 200 (Shortened (short_url cfg c) c n), s1)"
proof (cases "findByUrl (urls s) n")
  case (Some r)
  from shorten_existing [OF assms(2,4,6) Some, of e1] assms(1)
  have "resp1 = Json 200 (Shortened (short_url cfg (code r)) (code r) n)" and "s1 = s"
    by simp_all
  with shorten_existing [OF assms(3,5,6) Some, of e2] show ?thesis
    by blast
next
  case None
  from shorten_new [OF assms(2,4,6) None assms(1)] obtain c where
    c: "findByCode (urls s) c = None" "resp1 = Json 201 (Shortened (short_url cfg c) c n)"
       "s1 = cacheSet (set_ok e1)
            (s\<lparr>urls := urls s @ [\<lparr>code = c, original_url = n, created_at = date_now e1, visits = 0\<rparr>]\<rparr>) c n"
    by blast
  let ?row = "\<lparr>code = c, original_url = n, created_at = date_now e1, visits = 0\<rparr>"
  from c(3) None have "findByUrl (urls s1) n = Some ?row"
    by (simp add: findByUrl_append) (simp add: findByUrl_def)
  from shorten_existing [OF assms(3,5,6) this, of e2] c(2) show ?thesis
    by simp
qed

text \<open>
  C6. Two requests, one after the other, whose inputs normalize to the same URL get the
  same code. The first returns when the URL has a record or one of its random draws
  gives a code that no record has; it finds the record or creates it. The second finds
  it, answers with status 200 and leaves the whole state as it was, whatever its draws.
\<close>

theorem shorten_dedup:
  assumes "u1 \<noteq> []" and "u2 \<noteq> []"
    and "normalizeUrl (new_URL cfg) (trim u1) = Some n"
    and "normalizeUrl (new_URL cfg) (trim u2) = Some n"
    and "n \<noteq> []"
    and "findByUrl (urls s) n \<noteq> None
         \<or> (\<exists>r\<in>set (random_bytes e1). findByCode (urls s) (generateCode r) = None)"
  shows "\<exists>c st s1. shorten cfg e1 s (Str u1) = Some (Json st (Shortened (short_url cfg c) c n), s1)
           \<and> (st = 200 \<or> st = 201)
           \<and> shorten cfg e2 s1 (Str u2) = Some (Json 200 (Shortened (short_url cfg c) c n), s1)"
proof -
  from shorten_returns [OF assms(1,3,5,6)] obtain resp1 s1 where
    r: "shorten cfg e1 s (Str u1) = Some (resp1, s1)" by blast
  from shorten_twice [OF r assms(1,2,3,4,5), of e2] r show ?thesis
    by auto
qed

lemma normalize_github:
  "normalizeUrl (new_URL example_config) (trim (js ''github.com'')) = Some (js ''https://github.com/'')"
  by (simp add: example_defs handler_defs parser_defs)

lemma normalize_github_padded:
  "normalizeUrl (new_URL example_config) (trim (js '' HTTPS://GitHub.com:443/ ''))
     = Some (js ''https://github.com/'')"
  by (simp add: example_defs handler_defs parser_defs)

lemma shorten_github:
  "shorten example_config (example_env [draw1]) (init\<lparr>redisConnected := True\<rparr>) (Str (js ''github.com''))
     = Some (Json 201 (Shortened (js ''http://localhost:3000/EjRWeA'') (js ''EjRWeA'') (js ''https://github.com/'')),
             github_state)"
  by (simp add: example_defs handler_defs parser_defs)

theorem shorten_dedup_witness:
  "shorten example_config (example_env [draw1]) (init\<lparr>redisConnected := True\<rparr>) (Str (js ''github.com''))
     = Some (Json 201 (Shortened (js ''http://localhost:3000/EjRWeA'') (js ''EjRWeA'') (js ''https://github.com/'')),
             github_state)
   \<and> normalizeUrl (new_URL example_config) (trim (js ''github.com'')) = Some (js ''https://github.com/'')
   \<and> normalizeUrl (new_URL example_config) (trim (js '' HTTPS://GitHub.com:443/ ''))
       = Some (js ''https://github.com/'')
   \<and> shorten example_config (example_env []) github_state (Str (js '' HTTPS://GitHub.com:443/ ''))
       = Some (Json 200 (Shortened (js ''http://localhost:3000/EjRWeA'') (js ''EjRWeA'') (js ''https://github.com/'')),
               github_state)"
proof -
  have ne: "js ''github.com'' \<noteq> []" "js '' HTTPS://GitHub.com:443/ '' \<noteq> []" "js ''https://github.com/'' \<noteq> []"
    by (simp_all add: js_def)
  have fuel: "findByUrl (urls (init\<lparr>redisConnected := True\<rparr>)) (js ''https://github.com/'') \<noteq> None
      \<or> (\<exists>r\<in>set (random_bytes (example_env [draw1])).
            findByCode (urls (init\<lparr>redisConnected := True\<rparr>)) (generateCode r) = None)"
    by (simp add: init_def example_env_def findByCode_def)
  from shorten_dedup [OF ne(1,2) normalize_github normalize_github_padded ne(3) fuel, of "example_env []"]
  obtain c st s1 where c:
    "shorten example_config (example_env [draw1]) (init\<lparr>redisConnected := True\<rparr>) (Str (js ''github.com''))
       = Some (Json st (Shortened (short_url example_config c) c (js ''https://github.com/'')), s1)"
    "shorten example_config (example_env []) s1 (Str (js '' HTTPS://GitHub.com:443/ ''))
       = Some (Json 200 (Shortened (short_url example_config c) c (js ''https://github.com/'')), s1)"
    by blast
  from c(1) have "c = js ''EjRWeA''" "s1 = github_state"
    by (simp_all add: shorten_github)
  with c(2) have "shorten example_config (example_env []) github_state (Str (js '' HTTPS://GitHub.com:443/ ''))
       = Some (Json 200 (Shortened (short_url example_config (js ''EjRWeA'')) (js ''EjRWeA'')
                 (js ''https://github.com/'')), github_state)"
    by simp
  moreover have "short_url example_config (js ''EjRWeA'') = js ''http://localhost:3000/EjRWeA''"
    by (simp add: short_url_def example_config_def js_def)
  ultimately show ?thesis
    using shorten_github normalize_github normalize_github_padded by simp
qed

section \<open>Creation, then redirect\<close>


lemma shorten_github_no_cache:
  "shorten example_config (example_env [draw1]) init (Str (js ''github.com''))
     = Some (Json 201 (Shortened (js ''http://localhost:3000/EjRWeA'') (js ''EjRWeA'') (js ''https://github.com/'')),
             init\<lparr>urls := [github_row]\<rparr>)"
  by (simp add: example_defs handler_defs parser_defs)



section \<open>Trimming\<close>

lemma trim_padding:
  assumes "list_all is_white_space w1" and "list_all is_white_space w2"
  shows "trim (w1 @ u @ w2) = trim u"
proof -
  from assms(1) have 1: "dropWhile is_white_space (w1 @ u @ w2) = dropWhile is_white_space (u @ w2)"
    by (simp add: list_all_iff dropWhile_append2)
  have 2: "dropWhile is_white_space (rev (dropWhile is_white_space (u @ w2)))
           = dropWhile is_white_space (rev (dropWhile is_white_space u))"
  proof (cases "list_all is_white_space u")
    case True
    with assms(2) have "\<forall>x\<in>set (u @ w2). is_white_space x" "\<forall>x\<in>set u. is_white_space x"
      by (auto simp: list_all_iff)
    then have "dropWhile is_white_space (u @ w2) = []" "dropWhile is_white_space u = []"
      by (simp_all only: dropWhile_eq_Nil_conv)
    then show ?thesis by (simp only:)
  next
    case False
    then obtain x where "x \<in> set u" "\<not> is_white_space x"
      by (auto simp: list_all_iff)
    then have a: "dropWhile is_white_space (u @ w2) = dropWhile is_white_space u @ w2"
      by (rule dropWhile_append1)
    have "dropWhile is_white_space (rev w2 @ rev (dropWhile is_white_space u))
          = dropWhile is_white_space (rev (dropWhile is_white_space u))"
      by (rule dropWhile_append2) (use assms(2) in \<open>auto simp: list_all_iff\<close>)
    with a show ?thesis by simp
  qed
  from 1 2 show ?thesis by (simp add: trim_def)
qed

text \<open>
  C10, as the code has it. For an input that is not empty, white space around it changes
  nothing: the answer and the state are those for the input itself. The input is tested
  for emptiness before it is trimmed, so for the empty input the two differ, see the
  counterexample.
\<close>

theorem shorten_ignores_padding:
  assumes "u \<noteq> []" and "list_all is_white_space w1" and "list_all is_white_space w2"
  shows "trim (w1 @ u @ w2) = trim u
         \<and> shorten cfg e s (Str (w1 @ u @ w2)) = shorten cfg e s (Str u)"
  using assms(1) trim_padding [OF assms(2,3), of u]
  by (simp add: shorten_def)

theorem shorten_ignores_padding_witness:
  "js ''github.com'' \<noteq> [] \<and> list_all is_white_space (js '' '') \<and> list_all is_white_space [0xA, 0xFEFF]
   \<and> shorten example_config (example_env [draw1]) init (Str (js '' '' @ js ''github.com'' @ [0xA, 0xFEFF]))
      = shorten example_config (example_env [draw1]) init (Str (js ''github.com''))
   \<and> shorten example_config (example_env [draw1]) init (Str (js ''github.com''))
      = Some (Json 201 (Shortened (js ''http://localhost:3000/EjRWeA'') (js ''EjRWeA'') (js ''https://github.com/'')),
             init\<lparr>urls := [github_row]\<rparr>)"
proof -
  have a: "js ''github.com'' \<noteq> []" by (simp add: js_def)
  have b: "list_all is_white_space (js '' '')" by (simp add: js_def is_white_space_def)
  have c: "list_all is_white_space [0xA, 0xFEFF]" by (simp add: is_white_space_def)
  from shorten_ignores_padding [OF a b c, of example_config "example_env [draw1]" init]
    a b c shorten_github_no_cache
  show ?thesis by simp
qed

theorem shorten_padding_empty_counterexample:
  "list_all is_white_space (js '' '')
   \<and> shorten example_config (example_env [draw1]) init (Str (js '' '' @ js '''' @ js ''''))
       = Some (invalid_url, init)
   \<and> shorten example_config (example_env [draw1]) init (Str (js '''')) = Some (missing_url, init)
   \<and> invalid_url \<noteq> missing_url"
  by (simp add: example_defs handler_defs parser_defs)

section \<open>Schemes other than http and https\<close>

lemma https_prefix_added: "has_http_prefix (js ''https://'' @ u)"
  by (simp add: has_http_prefix_def js_def ascii_lower_def)

text \<open>
  The parser is only ever given a string that starts with \<open>http://\<close> or \<open>https://\<close>:
  an input with another scheme is not parsed as it is, but behind \<open>https://\<close>.
\<close>

lemma normalizeUrl_parses_http_only:
  "\<exists>w. has_http_prefix w \<and> (w = u \<or> w = js ''https://'' @ u)
       \<and> normalizeUrl P u =
           (case P w of None \<Rightarrow> None
            | Some parsed \<Rightarrow>
                if protocol parsed \<noteq> js ''http:'' \<and> protocol parsed \<noteq> js ''https:'' then None
                else Some (href parsed))"
  using https_prefix_added [of u]
  by (cases "has_http_prefix u") (auto simp: normalizeUrl_def)

lemma normalize_javascript_alert:
  "normalizeUrl (URL_parser other) (js ''javascript:alert(1)'') = None"
  by (simp add: parser_defs)

lemma normalize_data_text:
  "normalizeUrl (URL_parser other) (js ''data:text/html,x'') = None"
  by (simp add: parser_defs)

text \<open>
  C2 fails on the code. The input \<open>ftp://example.com\<close> is parsed as
  \<open>https://ftp://example.com\<close>: host \<open>ftp\<close>, an empty port and the path
  \<open>//example.com\<close>. So it is normalized to \<open>https://ftp//example.com\<close>, and \<open>shorten\<close>
  stores it, whatever the parser does on the inputs that are not modelled. The same
  happens to \<open>javascript:\<close> and \<open>data:\<close> where an empty port or a number follows the
  colon; \<open>javascript:alert(1)\<close> and \<open>data:text/html,x\<close> are rejected for their port.
\<close>

theorem normalizeUrl_accepts_ftp:
  "normalizeUrl (URL_parser other) (js ''ftp://example.com'') = Some (js ''https://ftp//example.com'')
   \<and> normalizeUrl (URL_parser other) (js ''javascript://example.com'')
       = Some (js ''https://javascript//example.com'')
   \<and> normalizeUrl (URL_parser other) (js ''data:'') = Some (js ''https://data/'')
   \<and> shorten \<lparr>new_URL = URL_parser other, BASE_URL = base\<rparr> (example_env [draw1]) init
        (Str (js ''ftp://example.com''))
      = Some (Json 201 (Shortened (base @ js ''/EjRWeA'') (js ''EjRWeA'') (js ''https://ftp//example.com'')),
              init\<lparr>urls := [\<lparr>code = js ''EjRWeA'', original_url = js ''https://ftp//example.com'',
                                created_at = js ''2024-01-01T00:00:00.000Z'', visits = 0\<rparr>]\<rparr>)"
  by (simp add: example_defs handler_defs parser_defs)

section \<open>Percent-encoding\<close>

lemma hex_digits_length: "length hex_digits = 16"
  by (simp add: hex_digits_def js_def)

lemma hex_digits_nth: "n < 16 \<Longrightarrow> hex_digits ! n \<in> set hex_digits"
  by (rule nth_mem) (simp add: hex_digits_length)

lemma percent_encode_byte_set: "set (percent_encode_byte c) \<subseteq> insert 0x25 (set hex_digits)"
  using hex_digits_nth [of "unat c div 16 mod 16"] hex_digits_nth [of "unat c mod 16"]
  by (simp add: percent_encode_byte_def)

lemma percent_encode_all:
  assumes "\<And>c. c \<in> set s \<Longrightarrow> \<not> in_set c \<Longrightarrow> P c" and "P 0x25" and "list_all P hex_digits"
  shows "list_all P (percent_encode in_set s)"
proof -
  have "list_all P (percent_encode_byte c)" for c
    using percent_encode_byte_set [of c] assms(2,3) by (auto simp: list_all_iff)
  with assms(1) show ?thesis
    by (auto simp: percent_encode_def list_all_iff)
qed

lemma percent_encode_id: "list_all (\<lambda>c. \<not> in_set c) s \<Longrightarrow> percent_encode in_set s = s"
  by (induction s) (auto simp: percent_encode_def)

lemma percent_encode_Nil [simp]: "percent_encode in_set [] = []"
  by (simp add: percent_encode_def)

lemma hex_clean_path: "list_all (\<lambda>c. clean_unit c \<and> \<not> path_set c \<and> \<not> is_slash c) hex_digits"
  by (simp add: hex_digits_def js_def clean_unit_def path_set_def query_set_def c0_control_set_def is_slash_def)

lemma hex_clean_query: "list_all (\<lambda>c. clean_unit c \<and> \<not> special_query_set c) hex_digits"
  by (simp add: hex_digits_def js_def clean_unit_def special_query_set_def query_set_def c0_control_set_def)

lemma hex_clean_fragment: "list_all (\<lambda>c. clean_unit c \<and> \<not> fragment_set c) hex_digits"
  by (simp add: hex_digits_def js_def clean_unit_def fragment_set_def c0_control_set_def)

lemma not_c0_clean: "c \<noteq> 0x5E \<Longrightarrow> \<not> c0_control_set c \<Longrightarrow> c \<noteq> 0x20 \<Longrightarrow> clean_unit c"
  unfolding clean_unit_def c0_control_set_def word_le_nat_alt word_less_nat_alt word_unat_eq_iff
  by simp

lemma encode_path_clean:
  assumes "list_all (\<lambda>c. c \<noteq> 0x5E \<and> \<not> is_slash c) seg"
  shows "list_all (\<lambda>c. clean_unit c \<and> \<not> path_set c \<and> \<not> is_slash c) (percent_encode path_set seg)"
proof (rule percent_encode_all)
  fix c assume "c \<in> set seg" "\<not> path_set c"
  with assms show "clean_unit c \<and> \<not> path_set c \<and> \<not> is_slash c"
    by (auto simp: list_all_iff path_set_def query_set_def intro!: not_c0_clean)
qed (simp_all add: hex_clean_path, simp add: clean_unit_def path_set_def query_set_def c0_control_set_def is_slash_def)

lemma encode_query_clean:
  assumes "list_all (\<lambda>c. c \<noteq> 0x5E) q"
  shows "list_all (\<lambda>c. clean_unit c \<and> \<not> special_query_set c) (percent_encode special_query_set q)"
proof (rule percent_encode_all)
  fix c assume "c \<in> set q" "\<not> special_query_set c"
  with assms show "clean_unit c \<and> \<not> special_query_set c"
    by (auto simp: list_all_iff special_query_set_def query_set_def intro!: not_c0_clean)
qed (simp_all add: hex_clean_query, simp add: clean_unit_def special_query_set_def query_set_def c0_control_set_def)

lemma encode_fragment_clean:
  assumes "list_all (\<lambda>c. c \<noteq> 0x5E) f"
  shows "list_all (\<lambda>c. clean_unit c \<and> \<not> fragment_set c) (percent_encode fragment_set f)"
proof (rule percent_encode_all)
  fix c assume "c \<in> set f" "\<not> fragment_set c"
  with assms show "clean_unit c \<and> \<not> fragment_set c"
    by (auto simp: list_all_iff fragment_set_def intro!: not_c0_clean)
qed (simp_all add: hex_clean_fragment, simp add: clean_unit_def fragment_set_def c0_control_set_def)

section \<open>The path\<close>

lemma not_dot_Nil [simp]: "\<not> single_dot []" "\<not> double_dot []"
  by (simp_all add: single_dot_def double_dot_def js_def)

lemma no_dot_Nil [simp]: "no_dot_segment []"
  by (simp add: no_dot_segment_def)

lemma path_state_no_dots:
  "list_all P acc \<Longrightarrow> list_all P segs \<Longrightarrow> P [] \<Longrightarrow> list_all P (path_state acc segs)"
  by (induction acc segs rule: path_state.induct) (auto simp: list_all_iff dest: in_set_butlastD)

lemma list_all_butlast: "list_all P xs \<Longrightarrow> list_all P (butlast xs)"
  by (auto simp: list_all_iff dest: in_set_butlastD)

lemma path_state_dots_removed:
  "list_all no_dot_segment acc \<Longrightarrow> list_all no_dot_segment (path_state acc segs)"
proof (induction acc segs rule: path_state.induct)
  case (1 path)
  then show ?case by simp
next
  case (2 path seg)
  then show ?case by (simp add: list_all_butlast no_dot_segment_def)
next
  case (3 path seg s2 rest)
  show ?case
  proof (cases "double_dot seg")
    case True
    with 3 show ?thesis by (simp add: list_all_butlast)
  next
    case nd: False
    show ?thesis
    proof (cases "single_dot seg")
      case True
      with 3 nd show ?thesis by simp
    next
      case False
      with 3 nd show ?thesis by (simp add: no_dot_segment_def)
    qed
  qed
qed

lemma path_state_id:
  "list_all no_dot_segment segs \<Longrightarrow> path_state acc segs = acc @ segs"
proof (induction acc segs rule: path_state.induct)
  case (1 path)
  then show ?case by simp
next
  case (2 path seg)
  then show ?case by (simp add: no_dot_segment_def)
next
  case (3 path seg s2 rest)
  then show ?case by (simp add: no_dot_segment_def)
qed

lemma path_state_not_Nil: "segs \<noteq> [] \<Longrightarrow> path_state acc segs \<noteq> []"
  by (induction acc segs rule: path_state.induct) auto

lemma split_on_not_Nil [simp]: "split_on P s \<noteq> []"
  by (induction s) (auto split: list.splits)

lemma split_on_no_sep: "list_all (list_all (\<lambda>c. \<not> P c)) (split_on P s)"
  by (induction s) (auto split: list.splits)

lemma split_on_elems: "list_all Q s \<Longrightarrow> list_all (list_all Q) (split_on P s)"
  by (induction s) (auto split: list.splits)

lemma split_on_plain: "list_all (\<lambda>c. \<not> P c) s \<Longrightarrow> split_on P s = [s]"
  by (induction s) auto

lemma split_on_join:
  assumes "P d" and "list_all (\<lambda>c. \<not> P c) s" and "list_all (list_all (\<lambda>c. \<not> P c)) rest"
  shows "split_on P (s @ concat (map (\<lambda>seg. d # seg) rest)) = s # rest"
  using assms(2,3)
proof (induction rest arbitrary: s)
  case Nil
  then show ?case by (simp add: split_on_plain)
next
  case (Cons r rest)
  from Cons.prems have r: "split_on P (r @ concat (map (\<lambda>seg. d # seg) rest)) = r # rest"
    by (intro Cons.IH) auto
  from Cons.prems(1) show ?case
    using assms(1) r by (induction s) auto
qed
section \<open>Ports\<close>

lemma digit_unit:
  assumes "k < 10"
  shows "is_digit (0x30 + of_nat k)" and "unat ((0x30 + of_nat k :: code_unit) - 0x30) = k"
    and "unat (of_nat k :: code_unit) = k"
proof -
  from assms have "k \<in> {0, 1, 2, 3, 4, 5, 6, 7, 8, 9}" by auto
  then show "is_digit (0x30 + of_nat k)" and "unat ((0x30 + of_nat k :: code_unit) - 0x30) = k"
    and "unat (of_nat k :: code_unit) = k"
    by (auto simp: is_digit_def)
qed

lemma decimal_digits: "list_all is_digit (decimal n)"
proof (induction n rule: decimal.induct)
  case (1 n)
  show ?case
  proof (cases "n < 10")
    case True
    then show ?thesis by (subst decimal.simps) (simp add: digit_unit)
  next
    case False
    with 1 show ?thesis by (subst decimal.simps) (simp add: digit_unit)
  qed
qed

lemma decimal_not_Nil: "decimal n \<noteq> []"
  by (subst decimal.simps) simp

lemma port_number_Nil [simp]: "port_number [] = 0"
  by (simp add: port_number_def)

lemma port_number_snoc: "port_number (ds @ [d]) = 10 * port_number ds + unat (d - 0x30)"
  by (simp add: port_number_def)

lemma port_number_decimal: "port_number (decimal n) = n"
proof (induction n rule: decimal.induct)
  case (1 n)
  show ?case
  proof (cases "n < 10")
    case True
    then show ?thesis
      by (subst decimal.simps) (simp add: port_number_def digit_unit)
  next
    case False
    with 1 have "port_number (decimal (n div 10)) = n div 10" by simp
    with False show ?thesis
      by (subst decimal.simps) (simp add: port_number_snoc digit_unit)
  qed
qed

section \<open>Clean strings\<close>

lemma strip_clean:
  assumes "list_all clean_unit s"
  shows "remove_tab_newline (strip_c0_space s) = s"
proof -
  have nc: "\<not> c \<le> 0x20" if "clean_unit c" for c
    using that by (simp add: clean_unit_def not_le)
  have d: "dropWhile (\<lambda>c. c \<le> 0x20) t = t" if "list_all clean_unit t" for t
    using that nc by (cases t) auto
  from assms have "list_all clean_unit (rev s)" by (simp add: list_all_iff)
  with assms have "strip_c0_space s = s" by (simp add: strip_c0_space_def d)
  moreover have "c \<noteq> 0x9 \<and> c \<noteq> 0xA \<and> c \<noteq> 0xD" if "clean_unit c" for c
    using that by (auto simp: clean_unit_def)
  with assms have "remove_tab_newline s = s"
    by (auto simp: remove_tab_newline_def list_all_iff filter_id_conv)
  ultimately show ?thesis by simp
qed

lemma plain_host_unit_facts:
  assumes "plain_host_unit c"
  shows "clean_unit c" and "ascii_lower c = c" and "\<not> ends_authority c" and "c \<noteq> 0x3A"
    and "\<not> forbidden_domain_unit c" and "\<not> is_slash c" and "c \<noteq> 0x40" and "c \<noteq> 0x5B" and "c \<noteq> 0x5D"
  using assms
  unfolding plain_host_unit_def is_digit_def clean_unit_def ascii_lower_def ends_authority_def
    is_slash_def forbidden_domain_unit_def word_le_nat_alt word_less_nat_alt word_unat_eq_iff
  by auto

lemma digit_facts:
  assumes "is_digit c"
  shows "clean_unit c" and "\<not> ends_authority c" and "c \<noteq> 0x3A" and "c \<noteq> 0x40" and "c \<noteq> 0x5B" and "c \<noteq> 0x5D"
  using assms
  unfolding is_digit_def clean_unit_def ends_authority_def is_slash_def
    word_le_nat_alt word_less_nat_alt word_unat_eq_iff
  by auto

lemma authority_unit_facts:
  assumes "plain_host_unit c \<or> is_digit c \<or> c = 0x3A"
  shows "\<not> ends_authority c" and "\<not> (c = 0x40 \<or> c = 0x5B \<or> c = 0x5D)" and "clean_unit c"
  using assms
  unfolding plain_host_unit_def is_digit_def clean_unit_def ends_authority_def is_slash_def
    word_le_nat_alt word_less_nat_alt word_unat_eq_iff
  by auto

lemma list_all_imp: "list_all P xs \<Longrightarrow> (\<And>x. P x \<Longrightarrow> Q x) \<Longrightarrow> list_all Q xs"
  by (auto simp: list_all_iff)

lemma not_list_ex: "list_all (\<lambda>x. \<not> R x) xs \<Longrightarrow> \<not> list_ex R xs"
  by (auto simp: list_all_iff list_ex_iff)
section \<open>Parsing a serialized URL\<close>

lemma while_boundary:
  assumes "list_all P xs" and "ys = [] \<or> \<not> P (hd ys)"
  shows "takeWhile P (xs @ ys) = xs" and "dropWhile P (xs @ ys) = ys"
proof -
  from assms(2) have "takeWhile P ys = []" "dropWhile P ys = ys"
    by (cases ys; simp)+
  with assms(1) show "takeWhile P (xs @ ys) = xs" "dropWhile P (xs @ ys) = ys"
    by (simp_all add: list_all_iff takeWhile_append2 dropWhile_append2)
qed

lemma query_fragment_reparse:
  assumes "case query of None \<Rightarrow> True | Some q \<Rightarrow> list_all (\<lambda>c. clean_unit c \<and> \<not> special_query_set c) q"
    and "case fragment of None \<Rightarrow> True | Some f \<Rightarrow> list_all (\<lambda>c. clean_unit c \<and> \<not> fragment_set c) f"
  defines "Q \<equiv> (case query of None \<Rightarrow> [] | Some q \<Rightarrow> 0x3F # q)"
    and "F \<equiv> (case fragment of None \<Rightarrow> [] | Some f \<Rightarrow> 0x23 # f)"
  shows "(if take 1 (Q @ F) = [0x3F]
          then Some (percent_encode special_query_set (takeWhile (\<lambda>c. c \<noteq> 0x23) (drop 1 (Q @ F))))
          else None) = query"
    and "(if take 1 (Q @ F) = [0x3F] then dropWhile (\<lambda>c. c \<noteq> 0x23) (drop 1 (Q @ F)) else Q @ F) = F"
    and "(if take 1 F = [0x23] then Some (percent_encode fragment_set (drop 1 F)) else None) = fragment"
    and "Q @ F = [] \<or> \<not> (hd (Q @ F) \<noteq> 0x3F \<and> hd (Q @ F) \<noteq> 0x23)"
    and "list_all clean_unit (Q @ F)"
proof -
  have F: "F = [] \<or> \<not> hd F \<noteq> 0x23"
    by (cases fragment) (simp_all add: F_def)
  have frag: "(if take 1 F = [0x23] then Some (percent_encode fragment_set (drop 1 F)) else None) = fragment"
    using assms(2) by (cases fragment) (simp_all add: F_def percent_encode_id list_all_iff)
  show "(if take 1 F = [0x23] then Some (percent_encode fragment_set (drop 1 F)) else None) = fragment"
    by (rule frag)
  have cF: "list_all clean_unit F"
    using assms(2) by (cases fragment) (simp_all add: F_def list_all_iff clean_unit_def)
  show "list_all clean_unit (Q @ F)"
    using assms(1) cF by (cases query) (auto simp: Q_def list_all_iff clean_unit_def)
  show "Q @ F = [] \<or> \<not> (hd (Q @ F) \<noteq> 0x3F \<and> hd (Q @ F) \<noteq> 0x23)"
    using F by (cases query) (auto simp: Q_def)
  show "(if take 1 (Q @ F) = [0x3F]
          then Some (percent_encode special_query_set (takeWhile (\<lambda>c. c \<noteq> 0x23) (drop 1 (Q @ F))))
          else None) = query"
  proof (cases query)
    case None
    with F show ?thesis by (cases F) (auto simp: Q_def)
  next
    case (Some q)
    with assms(1) have "list_all (\<lambda>c. c \<noteq> 0x23) q" "list_all (\<lambda>c. \<not> special_query_set c) q"
      by (auto simp: list_all_iff special_query_set_def query_set_def)
    with while_boundary(1) [OF this(1) F] Some show ?thesis
      by (simp add: Q_def percent_encode_id)
  qed
  show "(if take 1 (Q @ F) = [0x3F] then dropWhile (\<lambda>c. c \<noteq> 0x23) (drop 1 (Q @ F)) else Q @ F) = F"
  proof (cases query)
    case None
    with F show ?thesis by (cases F) (auto simp: Q_def)
  next
    case (Some q)
    with assms(1) have "list_all (\<lambda>c. c \<noteq> 0x23) q"
      by (auto simp: list_all_iff special_query_set_def query_set_def)
    with while_boundary(2) [OF this F] Some show ?thesis
      by (simp add: Q_def)
  qed
qed
lemma js_units: "js ''?'' = [0x3F]" "js ''#'' = [0x23]" "js ''/'' = [0x2F]" "js '':'' = [0x3A]"
  "js ''://'' = [0x3A, 0x2F, 0x2F]"
  by (simp_all add: js_def)

lemma parse_after_scheme_serialized:
  assumes ok: "parts_ok scheme host port path query fragment"
  defines "P \<equiv> (case port of None \<Rightarrow> [] | Some n \<Rightarrow> 0x3A # decimal n)"
    and "PA \<equiv> hd path @ concat (map (\<lambda>seg. 0x2F # seg) (tl path))"
    and "Q \<equiv> (case query of None \<Rightarrow> [] | Some q \<Rightarrow> 0x3F # q)"
    and "F \<equiv> (case fragment of None \<Rightarrow> [] | Some f \<Rightarrow> 0x23 # f)"
  shows "parse_after_scheme scheme ([0x2F, 0x2F] @ (host @ P) @ 0x2F # PA @ Q @ F)
         = Parsed \<lparr>protocol = scheme @ js '':'',
                   href = serialize_url scheme host port path query fragment\<rparr>"
proof -
  from ok [unfolded parts_ok_def] have host: "host \<noteq> []" "list_all plain_host_unit host" "modelled_host host"
    and port: "case port of None \<Rightarrow> True | Some n \<Rightarrow> n \<le> 65535 \<and> n \<noteq> default_port scheme"
    and path: "path \<noteq> []"
      "list_all (\<lambda>seg. list_all (\<lambda>c. clean_unit c \<and> \<not> path_set c \<and> \<not> is_slash c) seg
                         \<and> no_dot_segment seg) path"
    and query: "case query of None \<Rightarrow> True
          | Some q \<Rightarrow> list_all (\<lambda>c. clean_unit c \<and> \<not> special_query_set c) q"
    and fragment: "case fragment of None \<Rightarrow> True
          | Some f \<Rightarrow> list_all (\<lambda>c. clean_unit c \<and> \<not> fragment_set c) f"
    by blast+
  note qf = query_fragment_reparse [OF query fragment, folded Q_def F_def]
  let ?T = "0x2F # PA @ Q @ F"
  have digits: "list_all is_digit (drop 1 P)"
    by (cases port) (simp_all add: P_def decimal_digits)
  have hostP: "list_all (\<lambda>c. plain_host_unit c \<or> is_digit c \<or> c = 0x3A) (host @ P)"
    using host(2) decimal_digits by (cases port) (auto simp: P_def list_all_iff)
  have a1: "dropWhile is_slash ([0x2F, 0x2F] @ (host @ P) @ ?T) = (host @ P) @ ?T"
    using host(1,2) by (cases host) (auto simp: is_slash_def dest: plain_host_unit_facts(6))
  have "list_all (\<lambda>c. \<not> ends_authority c) (host @ P)"
    by (rule list_all_imp [OF hostP]) (rule authority_unit_facts(1))
  from while_boundary [OF this, of ?T]
  have a2: "takeWhile (\<lambda>c. \<not> ends_authority c) ((host @ P) @ ?T) = host @ P"
    and a3: "dropWhile (\<lambda>c. \<not> ends_authority c) ((host @ P) @ ?T) = ?T"
    by (simp_all add: ends_authority_def is_slash_def)
  have "list_all (\<lambda>c. c \<noteq> 0x3A) host"
    by (rule list_all_imp [OF host(2)]) (rule plain_host_unit_facts(4))
  from while_boundary [OF this, of P]
  have a4: "takeWhile (\<lambda>c. c \<noteq> 0x3A) (host @ P) = host"
    and a5: "dropWhile (\<lambda>c. c \<noteq> 0x3A) (host @ P) = P"
    by (cases port; simp add: P_def)+
  have a6: "map ascii_lower host = host"
    using host(2) by (auto simp: list_all_iff plain_host_unit_facts(2) intro: map_idI)
  have a8: "\<not> list_ex (\<lambda>c. c = 0x40 \<or> c = 0x5B \<or> c = 0x5D) (host @ P)"
    by (rule not_list_ex, rule list_all_imp [OF hostP], rule authority_unit_facts(2))
  have a9: "\<not> list_ex forbidden_domain_unit host"
    by (rule not_list_ex, rule list_all_imp [OF host(2)], rule plain_host_unit_facts(5))
  have a10: "\<not> 65535 < port_number (drop 1 P)"
    using port by (cases port) (simp_all add: P_def port_number_decimal)
  have a11: "(if drop 1 P = [] \<or> port_number (drop 1 P) = default_port scheme then None
              else Some (port_number (drop 1 P))) = port"
    using port by (cases port) (simp_all add: P_def port_number_decimal decimal_not_Nil)
  have a12: "(case ?T of [] \<Rightarrow> [] | c # r \<Rightarrow> if is_slash c then r else ?T) = PA @ Q @ F"
    by (simp add: is_slash_def)
  from path have segs: "list_all (list_all (\<lambda>c. \<not> is_slash c)) path"
    and enc: "list_all (list_all (\<lambda>c. \<not> path_set c)) path"
    and nodots: "list_all no_dot_segment path"
    by (auto simp: list_all_iff)
  from path(1) segs have hd_tl: "list_all (\<lambda>c. \<not> is_slash c) (hd path)"
    "list_all (list_all (\<lambda>c. \<not> is_slash c)) (tl path)"
    by (cases path; simp)+
  have "list_all (\<lambda>c. c \<noteq> 0x3F \<and> c \<noteq> 0x23) PA"
  proof -
    have "list_all (\<lambda>c. c \<noteq> 0x3F \<and> c \<noteq> 0x23) seg" if "seg \<in> set path" for seg
      using that enc by (auto simp: list_all_iff path_set_def query_set_def)
    with path(1) show ?thesis
      by (cases path) (auto simp: PA_def list_all_iff)
  qed
  from while_boundary [OF this qf(4)]
  have a13: "takeWhile (\<lambda>c. c \<noteq> 0x3F \<and> c \<noteq> 0x23) (PA @ Q @ F) = PA"
    and a14: "dropWhile (\<lambda>c. c \<noteq> 0x3F \<and> c \<noteq> 0x23) (PA @ Q @ F) = Q @ F"
    by simp_all
  have "split_on is_slash PA = hd path # tl path"
    unfolding PA_def by (rule split_on_join) (simp add: is_slash_def, rule hd_tl(1), rule hd_tl(2))
  with path(1) have a15: "split_on is_slash PA = path" by simp
  have a16: "map (percent_encode path_set) path = path"
    using enc by (auto simp: list_all_iff percent_encode_id intro: map_idI)
  have a17: "path_state [] path = path"
    using path_state_id [OF nodots, of "[]"] by simp
  have ser: "serialize_url scheme host port path query fragment
             = scheme @ [0x3A, 0x2F, 0x2F] @ host @ P @ 0x2F # PA @ Q @ F"
  proof -
    from path(1) have "concat (map (\<lambda>seg. js ''/'' @ seg) path) = 0x2F # PA"
      by (cases path) (simp_all add: PA_def js_units)
    then show ?thesis
      by (cases port; cases query; cases fragment)
         (simp_all add: serialize_url_def js_units P_def Q_def F_def)
  qed
  show ?thesis
    unfolding parse_after_scheme_def Let_def js_units
    apply (simp only: a1 a2 a3 a4 a5 a6 a12 a13 a14 a15 a16 a17 qf(1,2,3) a11)
    apply (simp only: a8 a9 a10 digits host simp_thms if_True if_False)
    done
qed
lemma serialize_url_shape:
  assumes "path \<noteq> []"
  shows "serialize_url scheme host port path query fragment
         = scheme @ 0x3A # [0x2F, 0x2F]
           @ (host @ (case port of None \<Rightarrow> [] | Some n \<Rightarrow> 0x3A # decimal n))
           @ 0x2F # (hd path @ concat (map (\<lambda>seg. 0x2F # seg) (tl path)))
           @ (case query of None \<Rightarrow> [] | Some q \<Rightarrow> 0x3F # q)
           @ (case fragment of None \<Rightarrow> [] | Some f \<Rightarrow> 0x23 # f)"
proof -
  from assms have "concat (map (\<lambda>seg. js ''/'' @ seg) path)
      = 0x2F # (hd path @ concat (map (\<lambda>seg. 0x2F # seg) (tl path)))"
    by (cases path) (simp_all add: js_units)
  then show ?thesis
    by (cases port; cases query; cases fragment) (simp_all add: serialize_url_def js_units)
qed

lemma serialize_url_clean:
  assumes "parts_ok scheme host port path query fragment"
  shows "list_all clean_unit (serialize_url scheme host port path query fragment)"
proof -
  from assms [unfolded parts_ok_def] have scheme: "scheme = js ''http'' \<or> scheme = js ''https''"
    and host: "list_all plain_host_unit host"
    and path: "path \<noteq> []"
      "list_all (\<lambda>seg. list_all (\<lambda>c. clean_unit c \<and> \<not> path_set c \<and> \<not> is_slash c) seg
                         \<and> no_dot_segment seg) path"
    and query: "case query of None \<Rightarrow> True
          | Some q \<Rightarrow> list_all (\<lambda>c. clean_unit c \<and> \<not> special_query_set c) q"
    and fragment: "case fragment of None \<Rightarrow> True
          | Some f \<Rightarrow> list_all (\<lambda>c. clean_unit c \<and> \<not> fragment_set c) f"
    by blast+
  from scheme have 1: "list_all clean_unit scheme"
    by (auto simp: js_def clean_unit_def)
  have 2: "list_all clean_unit host"
    by (rule list_all_imp [OF host]) (rule plain_host_unit_facts(1))
  have 3: "list_all clean_unit (case port of None \<Rightarrow> [] | Some n \<Rightarrow> 0x3A # decimal n)"
  proof (cases port)
    case None
    then show ?thesis by simp
  next
    case (Some n)
    have "list_all clean_unit (decimal n)"
      by (rule list_all_imp [OF decimal_digits]) (rule digit_facts(1))
    with Some show ?thesis by (simp add: clean_unit_def)
  qed
  have seg: "list_all clean_unit seg" if "seg \<in> set path" for seg
    using that path(2) by (auto simp: list_all_iff)
  with path(1) have 4: "list_all clean_unit (hd path @ concat (map (\<lambda>seg. 0x2F # seg) (tl path)))"
    by (cases path) (auto simp: list_all_iff clean_unit_def)
  note 5 = query_fragment_reparse(5) [OF query fragment]
  have 6: "clean_unit 0x3A" "clean_unit 0x2F"
    by (simp_all add: clean_unit_def)
  show ?thesis
    unfolding serialize_url_shape [OF path(1)]
    using 1 2 3 4 5 6 by (auto simp: list_all_iff)
qed

lemma basic_parse_serialized:
  assumes "parts_ok scheme host port path query fragment"
  shows "basic_parse (serialize_url scheme host port path query fragment)
         = Parsed \<lparr>protocol = scheme @ js '':'',
                   href = serialize_url scheme host port path query fragment\<rparr>"
    and "has_http_prefix (serialize_url scheme host port path query fragment)"
proof -
  let ?href = "serialize_url scheme host port path query fragment"
  let ?rest = "[0x2F, 0x2F]
           @ (host @ (case port of None \<Rightarrow> [] | Some n \<Rightarrow> 0x3A # decimal n))
           @ 0x2F # (hd path @ concat (map (\<lambda>seg. 0x2F # seg) (tl path)))
           @ (case query of None \<Rightarrow> [] | Some q \<Rightarrow> 0x3F # q)
           @ (case fragment of None \<Rightarrow> [] | Some f \<Rightarrow> 0x23 # f)"
  from assms have scheme: "scheme = js ''http'' \<or> scheme = js ''https''" and path: "path \<noteq> []"
    by (simp_all add: parts_ok_def)
  have shape: "?href = scheme @ 0x3A # ?rest"
    by (rule serialize_url_shape [OF path])
  note clean = serialize_url_clean [OF assms]
  have strip: "remove_tab_newline (strip_c0_space ?href) = ?href"
    by (rule strip_clean [OF clean])
  have "list_all (\<lambda>c. \<not> (0x7F < c \<or> c = 0x5E)) ?href"
    by (rule list_all_imp [OF clean]) (auto simp: clean_unit_def)
  then have ascii: "\<not> list_ex (\<lambda>c. 0x7F < c \<or> c = 0x5E) ?href"
    by (rule not_list_ex)
  note rest = parse_after_scheme_serialized [OF assms]
  from scheme show "has_http_prefix ?href"
    unfolding shape by (auto simp: has_http_prefix_def js_def ascii_lower_def)
  from scheme have "(map ascii_lower (take 5 ?href) = js ''http:'' \<and> scheme = js ''http'' \<and> drop 5 ?href = ?rest)
      \<or> (map ascii_lower (take 5 ?href) \<noteq> js ''http:'' \<and> map ascii_lower (take 6 ?href) = js ''https:''
          \<and> scheme = js ''https'' \<and> drop 6 ?href = ?rest)"
    unfolding shape by (auto simp: js_def ascii_lower_def)
  then show "basic_parse ?href = Parsed \<lparr>protocol = scheme @ js '':'', href = ?href\<rparr>"
    unfolding basic_parse_def Let_def strip
    using ascii rest by (auto simp only: if_True if_False simp_thms)
qed
section \<open>The parts of a parsed URL\<close>

lemma pieces_of_input:
  assumes "list_all R input"
  shows "list_all R (takeWhile P input)" and "list_all R (dropWhile P input)"
    and "list_all R (drop n input)"
    and "list_all R (case input of [] \<Rightarrow> [] | c # r \<Rightarrow> if Q c then r else input)"
  using assms
  by (auto simp: list_all_iff split: list.splits dest: set_takeWhileD set_dropWhileD in_set_dropD)

lemma parse_after_scheme_parts:
  assumes parsed: "parse_after_scheme scheme input = Parsed p"
    and scheme: "scheme = js ''http'' \<or> scheme = js ''https''"
    and input: "list_all (\<lambda>c. c \<noteq> 0x5E) input"
  shows "\<exists>host port path query fragment.
           parts_ok scheme host port path query fragment
           \<and> p = \<lparr>protocol = scheme @ js '':'',
                   href = serialize_url scheme host port path query fragment\<rparr>"
proof -
  define after_slashes where "after_slashes = dropWhile is_slash input"
  define authority where "authority = takeWhile (\<lambda>c. \<not> ends_authority c) after_slashes"
  define tail where "tail = dropWhile (\<lambda>c. \<not> ends_authority c) after_slashes"
  define host where "host = map ascii_lower (takeWhile (\<lambda>c. c \<noteq> 0x3A) authority)"
  define port_digits where "port_digits = drop 1 (dropWhile (\<lambda>c. c \<noteq> 0x3A) authority)"
  define path_input where
    "path_input = (case tail of [] \<Rightarrow> [] | c # r \<Rightarrow> if is_slash c then r else tail)"
  define path_string where "path_string = takeWhile (\<lambda>c. c \<noteq> 0x3F \<and> c \<noteq> 0x23) path_input"
  define after_path where "after_path = dropWhile (\<lambda>c. c \<noteq> 0x3F \<and> c \<noteq> 0x23) path_input"
  define query_string where "query_string = takeWhile (\<lambda>c. c \<noteq> 0x23) (drop 1 after_path)"
  define after_query where
    "after_query = (if take 1 after_path = js ''?'' then dropWhile (\<lambda>c. c \<noteq> 0x23) (drop 1 after_path)
                    else after_path)"
  define port where
    "port = (if port_digits = [] \<or> port_number port_digits = default_port scheme then None
             else Some (port_number port_digits))"
  define path where
    "path = path_state [] (map (percent_encode path_set) (split_on is_slash path_string))"
  define query where
    "query = (if take 1 after_path = js ''?'' then Some (percent_encode special_query_set query_string)
              else None)"
  define fragment where
    "fragment = (if take 1 after_query = js ''#'' then Some (percent_encode fragment_set (drop 1 after_query))
                 else None)"
  have unfolded: "parse_after_scheme scheme input =
      (if list_ex (\<lambda>c. c = 0x40 \<or> c = 0x5B \<or> c = 0x5D) authority \<or> \<not> modelled_host host then Unmodelled
       else if host = [] \<or> list_ex forbidden_domain_unit host then Failure
       else if \<not> list_all is_digit port_digits \<or> 65535 < port_number port_digits then Failure
       else Parsed \<lparr>protocol = scheme @ js '':'',
                     href = serialize_url scheme host port path query fragment\<rparr>)"
    unfolding parse_after_scheme_def Let_def after_slashes_def authority_def tail_def host_def
      port_digits_def path_input_def path_string_def after_path_def query_string_def
      after_query_def port_def path_def query_def fragment_def
    by (rule refl)
  from parsed [unfolded unfolded]
  have m: "modelled_host host" and h: "host \<noteq> []" and nf: "\<not> list_ex forbidden_domain_unit host"
    and pn: "\<not> 65535 < port_number port_digits"
    and p: "p = \<lparr>protocol = scheme @ js '':'',
                   href = serialize_url scheme host port path query fragment\<rparr>"
    by (auto split: if_splits)
  from m nf have plain: "list_all plain_host_unit host"
    by (auto simp: modelled_host_def list_all_iff list_ex_iff)
  from pn have port_ok: "case port of None \<Rightarrow> True | Some n \<Rightarrow> n \<le> 65535 \<and> n \<noteq> default_port scheme"
    by (auto simp: port_def)
  have i1: "list_all (\<lambda>c. c \<noteq> 0x5E) path_input"
    unfolding path_input_def tail_def after_slashes_def
    by (intro pieces_of_input input)
  then have i2: "list_all (\<lambda>c. c \<noteq> 0x5E) path_string" and i3: "list_all (\<lambda>c. c \<noteq> 0x5E) after_path"
    unfolding path_string_def after_path_def by (intro pieces_of_input; assumption)+
  from i3 have i4: "list_all (\<lambda>c. c \<noteq> 0x5E) query_string"
    unfolding query_string_def by (intro pieces_of_input)
  from i3 have i5: "list_all (\<lambda>c. c \<noteq> 0x5E) (drop 1 after_query)"
    unfolding after_query_def by (auto intro!: pieces_of_input)
  let ?segs = "split_on is_slash path_string"
  let ?good = "\<lambda>seg. list_all (\<lambda>c. clean_unit c \<and> \<not> path_set c \<and> \<not> is_slash c) seg"
  have "list_all (list_all (\<lambda>c. c \<noteq> 0x5E \<and> \<not> is_slash c)) ?segs"
    using split_on_no_sep [of is_slash path_string] split_on_elems [OF i2, of is_slash]
    by (auto simp: list_all_iff)
  then have "list_all ?good (map (percent_encode path_set) ?segs)"
    by (auto simp: list_all_iff intro!: encode_path_clean [unfolded list_all_iff])
  then have good: "list_all ?good path"
    unfolding path_def by (intro path_state_no_dots) simp_all
  have dots: "list_all no_dot_segment path"
    unfolding path_def by (rule path_state_dots_removed) simp
  from good dots have path_ok: "list_all (\<lambda>seg. ?good seg \<and> no_dot_segment seg) path"
    by (auto simp: list_all_iff)
  have path_ne: "path \<noteq> []"
    unfolding path_def by (rule path_state_not_Nil) simp
  have query_ok: "case query of None \<Rightarrow> True
          | Some q \<Rightarrow> list_all (\<lambda>c. clean_unit c \<and> \<not> special_query_set c) q"
    using encode_query_clean [OF i4] by (simp add: query_def)
  have fragment_ok: "case fragment of None \<Rightarrow> True
          | Some f \<Rightarrow> list_all (\<lambda>c. clean_unit c \<and> \<not> fragment_set c) f"
    using encode_fragment_clean [OF i5] by (simp add: fragment_def)
  from scheme h plain m port_ok path_ne path_ok query_ok fragment_ok
  have "parts_ok scheme host port path query fragment"
    unfolding parts_ok_def by blast
  with p show ?thesis by blast
qed

text \<open>Where the model parses an input, it parses the result to the same result.\<close>

lemma basic_parse_idempotent:
  assumes "basic_parse w = Parsed p"
  shows "basic_parse (href p) = Parsed p" and "has_http_prefix (href p)"
    and "protocol p = js ''http:'' \<or> protocol p = js ''https:''"
proof -
  define s where "s = remove_tab_newline (strip_c0_space w)"
  from assms have ascii: "\<not> list_ex (\<lambda>c. 0x7F < c \<or> c = 0x5E) s"
    and cases: "parse_after_scheme (js ''http'') (drop 5 s) = Parsed p
                \<or> parse_after_scheme (js ''https'') (drop 6 s) = Parsed p"
    unfolding basic_parse_def Let_def s_def by (auto split: if_splits)
  from ascii have "list_all (\<lambda>c. c \<noteq> 0x5E) s"
    by (auto simp: list_all_iff list_ex_iff)
  then have d: "list_all (\<lambda>c. c \<noteq> 0x5E) (drop n s)" for n
    by (rule pieces_of_input)
  from cases obtain scheme host port path query fragment where
    ok: "parts_ok scheme host port path query fragment"
    and p: "p = \<lparr>protocol = scheme @ js '':'',
                  href = serialize_url scheme host port path query fragment\<rparr>"
    using parse_after_scheme_parts [OF _ _ d] by blast
  from basic_parse_serialized [OF ok] p
  show "basic_parse (href p) = Parsed p" and "has_http_prefix (href p)"
    by simp_all
  from ok p show "protocol p = js ''http:'' \<or> protocol p = js ''https:''"
    by (auto simp: parts_ok_def js_def)
qed
section \<open>Normalizing twice\<close>

lemma normalizeUrl_fixed:
  assumes "has_http_prefix n" and "P n = Some p" and "href p = n"
    and "protocol p = js ''http:'' \<or> protocol p = js ''https:''"
  shows "normalizeUrl P n = Some n"
  using assms by (auto simp: normalizeUrl_def)

text \<open>
  Where the model of the parser covers what \<open>normalizeUrl\<close> passes to \<open>new URL\<close> (it parses
  it or fails on it), \<open>normalizeUrl\<close> maps its result to itself, whatever the platform's
  parser does on the other inputs. Nothing is said of the inputs that the model leaves to
  the platform's parser: hosts that are IP addresses, credentials, code units outside
  ASCII, Punycode labels and percent signs in the host.
\<close>

lemma normalizeUrl_idempotent_modelled:
  assumes "normalizeUrl (URL_parser other) u = Some n"
    and "basic_parse (if has_http_prefix u then u else js ''https://'' @ u) \<noteq> Unmodelled"
  shows "normalizeUrl (URL_parser other) n = Some n"
proof -
  define w where "w = (if has_http_prefix u then u else js ''https://'' @ u)"
  from assms(1) obtain p where p: "URL_parser other w = Some p" "href p = n"
    "protocol p = js ''http:'' \<or> protocol p = js ''https:''"
    by (auto simp: normalizeUrl_def w_def Let_def split: option.splits if_splits)
  show ?thesis
  proof (cases "basic_parse w")
    case (Parsed p')
    with p(1) have "p' = p" by (simp add: URL_parser_def)
    with Parsed basic_parse_idempotent [of w p] p(2)
    have "basic_parse n = Parsed p" "has_http_prefix n" by simp_all
    then show ?thesis
      using p(2,3) by (intro normalizeUrl_fixed [of n _ p]) (simp_all add: URL_parser_def)
  next
    case Failure
    with p(1) show ?thesis by (simp add: URL_parser_def)
  next
    case Unmodelled
    with assms(2) show ?thesis by (simp add: w_def)
  qed
qed

lemma normalize_messy:
  "normalizeUrl (URL_parser (\<lambda>_. None)) (js ''HTTP://Example.COM:0080/a/./b/../c/%2E%2e/d e?x y#z w'')
     = Some (js ''http://example.com/a/d%20e?x%20y#z%20w'')"
  by (simp add: parser_defs)

lemma normalize_messy_twice:
  "normalizeUrl (URL_parser (\<lambda>_. None)) (js ''http://example.com/a/d%20e?x%20y#z%20w'')
     = Some (js ''http://example.com/a/d%20e?x%20y#z%20w'')"
  by (simp add: parser_defs)

end
